theory Spec2Isabelle
  imports Main "HOL-Library.Sublist" "HOL-Library.Log_Nat"
begin

section \<open>Constants of gpt\_to\_ableton.py\<close>

text \<open>
  \<^verbatim>\<open>SCHEMA = [PITCH, START_TIME, DURATION, VELOCITY]\<close>; the code only ever uses
  \<^verbatim>\<open>len(SCHEMA)\<close> and \<^verbatim>\<open>SCHEMA.index(...)\<close>, so the schema is kept as the list of its
  column names together with the four indices.
\<close>

definition PITCH :: string where "PITCH = ''pitch''"
definition START_TIME :: string where "START_TIME = ''start_time''"
definition VELOCITY :: string where "VELOCITY = ''velocity''"
definition DURATION :: string where "DURATION = ''duration''"

definition SCHEMA :: "string list" where
  "SCHEMA = [PITCH, START_TIME, DURATION, VELOCITY]"

text \<open>\<^verbatim>\<open>SCHEMA.index(x)\<close>: position of the first element equal to \<open>x\<close>.\<close>

fun index_of :: "'a list \<Rightarrow> 'a \<Rightarrow> nat" where
  "index_of [] x = 0"
| "index_of (y # ys) x = (if y = x then 0 else Suc (index_of ys x))"

definition VALID_MIDI_NOTES :: "int list" where
  "VALID_MIDI_NOTES = [30..90]"

definition SONG_TEMPO :: int where "SONG_TEMPO = 60"

definition MELODY :: string where "MELODY = ''Melody''"
definition DRUM :: string where "DRUM = ''Drum''"
definition BASS :: string where "BASS = ''Bass''"

section \<open>Python string operations used by the script\<close>

text \<open>\<^verbatim>\<open>str(note)\<close> for an integer: its decimal representation.\<close>

fun str_nat :: "nat \<Rightarrow> string" where
  "str_nat n = (if n < 10 then [''0123456789'' ! n]
                else str_nat (n div 10) @ [''0123456789'' ! (n mod 10)])"

declare str_nat.simps [simp del]

definition str_int :: "int \<Rightarrow> string" where
  "str_int i = (if i < 0 then CHR ''-'' # str_nat (nat (- i)) else str_nat (nat i))"

text \<open>
  \<^verbatim>\<open>s.split(sep)\<close> for a one-character separator and \<^verbatim>\<open>re.split("\t| ", row)\<close>: the text
  is cut at every single character satisfying \<open>p\<close>; \<open>n\<close> separators give \<open>n + 1\<close> pieces,
  empty pieces included.
\<close>

fun split_at :: "(char \<Rightarrow> bool) \<Rightarrow> string \<Rightarrow> string \<Rightarrow> string list" where
  "split_at p acc [] = [rev acc]"
| "split_at p acc (c # cs) =
     (if p c then rev acc # split_at p [] cs else split_at p (c # acc) cs)"

definition split_lines :: "string \<Rightarrow> string list" where
  "split_lines data = split_at (\<lambda>c. c = CHR 0x0A) [] data"

definition is_sep :: "char \<Rightarrow> bool" where
  "is_sep c \<longleftrightarrow> c = CHR 0x09 \<or> c = CHR '' ''"

definition re_split :: "string \<Rightarrow> string list" where
  "re_split row = split_at is_sep [] row"

text \<open>\<open>sub\<close> occurs in \<open>s\<close> at index \<open>i\<close>.\<close>

definition occurs_at :: "string \<Rightarrow> string \<Rightarrow> nat \<Rightarrow> bool" where
  "occurs_at s sub i \<longleftrightarrow> i + length sub \<le> length s \<and> take (length sub) (drop i s) = sub"

text \<open>\<^verbatim>\<open>sub in s\<close>.\<close>

definition str_contains :: "string \<Rightarrow> string \<Rightarrow> bool" where
  "str_contains s sub = list_ex (occurs_at s sub) [0..<Suc (length s)]"

text \<open>
  \<^verbatim>\<open>s.rindex(sub, start)\<close>: the highest index \<open>i \<ge> start\<close> at which \<open>sub\<close> occurs;
  \<open>None\<close> stands for the \<^verbatim>\<open>ValueError\<close> raised when there is none.
\<close>

definition rindex :: "string \<Rightarrow> string \<Rightarrow> nat \<Rightarrow> nat option" where
  "rindex s sub start = find (occurs_at s sub) (rev [start..<Suc (length s)])"

text \<open>\<^verbatim>\<open>s.index(sub)\<close>: the lowest index at which \<open>sub\<close> occurs.\<close>

definition index_first :: "string \<Rightarrow> string \<Rightarrow> nat option" where
  "index_first s sub = find (occurs_at s sub) [0..<Suc (length s)]"

text \<open>\<^verbatim>\<open>string[s:e]\<close> for non-negative \<open>s\<close>, \<open>e\<close>.\<close>

definition slice :: "string \<Rightarrow> nat \<Rightarrow> nat \<Rightarrow> string" where
  "slice string s e = take (e - s) (drop s string)"

section \<open>Errors, numeric built-ins and the command stream\<close>

datatype py_error = ValueError | IndexError

text \<open>
  The conversions \<^verbatim>\<open>int(token)\<close> and \<^verbatim>\<open>float(token)\<close>, float addition and
  \<^verbatim>\<open>round(t, 4)\<close> are Python built-ins, not code of the script. They are parameters of
  the model; \<open>None\<close> is the \<^verbatim>\<open>ValueError\<close> of a failed conversion, and \<open>'f\<close> is the
  type of float values.
\<close>

record 'f numerics =
  py_int :: "string \<Rightarrow> int option"
  py_float :: "string \<Rightarrow> 'f option"
  py_add :: "'f \<Rightarrow> 'f \<Rightarrow> 'f"
  py_round4 :: "'f \<Rightarrow> 'f"

text \<open>The messages handed to \<^verbatim>\<open>ableton_client.send_message\<close>, with their arguments.\<close>

datatype 'f command =
    SetTempo int
  | DeleteClip nat nat
  | CreateClip nat nat 'f
  | AddNote nat nat int 'f 'f int nat

text \<open>\<^verbatim>\<open>row[i]\<close>: raises \<^verbatim>\<open>IndexError\<close> out of range.\<close>

definition row_get :: "'a list \<Rightarrow> nat \<Rightarrow> py_error + 'a" where
  "row_get row i = (if i < length row then Inr (row ! i) else Inl IndexError)"

definition float_field :: "'f numerics \<Rightarrow> string list \<Rightarrow> string \<Rightarrow> py_error + 'f" where
  "float_field N row col =
     (case row_get row (index_of SCHEMA col) of
        Inl e \<Rightarrow> Inl e
      | Inr tok \<Rightarrow> (case py_float N tok of None \<Rightarrow> Inl ValueError | Some v \<Rightarrow> Inr v))"

definition int_field :: "'f numerics \<Rightarrow> string list \<Rightarrow> string \<Rightarrow> py_error + int" where
  "int_field N row col =
     (case row_get row (index_of SCHEMA col) of
        Inl e \<Rightarrow> Inl e
      | Inr tok \<Rightarrow> (case py_int N tok of None \<Rightarrow> Inl ValueError | Some v \<Rightarrow> Inr v))"

section \<open>The functions of the script\<close>

definition find_substring :: "string \<Rightarrow> string \<Rightarrow> string \<Rightarrow> string" where
  "find_substring string start en =
     (case rindex string start 0 of
        None \<Rightarrow> []
      | Some i \<Rightarrow>
          (let s = i + length start in
           case rindex string en s of
             None \<Rightarrow> []
           | Some e \<Rightarrow> slice string s e))"

text \<open>The guard of the first comprehension of \<^verbatim>\<open>parse_table_to_list\<close>.\<close>

definition row_guard :: "int list \<Rightarrow> string \<Rightarrow> bool" where
  "row_guard valid_midi_notes row \<longleftrightarrow>
     row \<noteq> [] \<and> list_ex (\<lambda>note. prefix (str_int note) row) valid_midi_notes"

text \<open>\<open>None\<close> is Python's \<^verbatim>\<open>None\<close>, returned when \<^verbatim>\<open>data\<close> is the empty string.\<close>

definition parse_table_to_list :: "string \<Rightarrow> int list \<Rightarrow> string list list option" where
  "parse_table_to_list data valid_midi_notes =
     (if data \<noteq> [] then
        (let data1 = map re_split (filter (row_guard valid_midi_notes) (split_lines data));
             data2 = filter (\<lambda>i. length i \<ge> length SCHEMA) data1
         in Some data2)
      else None)"

fun duration_loop :: "'f numerics \<Rightarrow> 'f \<Rightarrow> string list list \<Rightarrow> py_error + 'f" where
  "duration_loop N t [] = Inr t"
| "duration_loop N t (row # rows) =
     (case float_field N row DURATION of
        Inl e \<Rightarrow> Inl e
      | Inr duration \<Rightarrow> duration_loop N (py_add N t duration) rows)"

definition calculate_pattern_duration :: "'f numerics \<Rightarrow> string list list \<Rightarrow> py_error + 'f" where
  "calculate_pattern_duration N data =
     (case row_get data 0 of
        Inl e \<Rightarrow> Inl e
      | Inr row0 \<Rightarrow>
          (case float_field N row0 START_TIME of
             Inl e \<Rightarrow> Inl e
           | Inr t0 \<Rightarrow>
               (case duration_loop N t0 data of
                  Inl e \<Rightarrow> Inl e
                | Inr t \<Rightarrow> Inr (py_round4 N t))))"

text \<open>
  The functions that send take the list of commands sent so far and return it extended,
  with \<open>None\<close> when they return normally and \<open>Some e\<close> when they raise \<open>e\<close>.
\<close>

definition initiate_clips ::
  "'f numerics \<Rightarrow> 'f command list \<Rightarrow> int \<Rightarrow> string list list \<Rightarrow> string list list \<Rightarrow>
   string list list \<Rightarrow> 'f command list \<times> py_error option" where
  "initiate_clips N out song_tempo melody_data drum_data bass_data =
     (let out1 = out @ [SetTempo song_tempo] in
      case calculate_pattern_duration N melody_data of
        Inl e \<Rightarrow> (out1, Some e)
      | Inr melody_pattern_len \<Rightarrow>
      (case calculate_pattern_duration N drum_data of
        Inl e \<Rightarrow> (out1, Some e)
      | Inr drum_pattern_len \<Rightarrow>
      (case calculate_pattern_duration N bass_data of
        Inl e \<Rightarrow> (out1, Some e)
      | Inr bass_pattern_len \<Rightarrow>
          (out1 @ [DeleteClip 0 0, CreateClip 0 0 melody_pattern_len,
                   DeleteClip 1 0, CreateClip 1 0 drum_pattern_len,
                   DeleteClip 2 0, CreateClip 2 0 bass_pattern_len], None))))"

text \<open>The body of one \<^verbatim>\<open>for row in ..._data\<close> loop of \<^verbatim>\<open>send_events\<close>, for track \<open>slot\<close>.\<close>

fun note_loop ::
  "'f numerics \<Rightarrow> nat \<Rightarrow> 'f command list \<Rightarrow> 'f \<Rightarrow> string list list \<Rightarrow>
   'f command list \<times> py_error option" where
  "note_loop N slot out pointer [] = (out, None)"
| "note_loop N slot out pointer (row # rows) =
     (case int_field N row PITCH of
        Inl e \<Rightarrow> (out, Some e)
      | Inr pitch \<Rightarrow>
      (case int_field N row VELOCITY of
        Inl e \<Rightarrow> (out, Some e)
      | Inr velocity \<Rightarrow>
      (case float_field N row DURATION of
        Inl e \<Rightarrow> (out, Some e)
      | Inr duration \<Rightarrow>
          note_loop N slot (out @ [AddNote slot 0 pitch pointer duration velocity 0])
            (py_add N pointer duration) rows)))"

text \<open>One \<^verbatim>\<open>if ..._data:\<close> block of \<^verbatim>\<open>send_events\<close>.\<close>

definition send_track ::
  "'f numerics \<Rightarrow> nat \<Rightarrow> 'f command list \<Rightarrow> string list list \<Rightarrow>
   'f command list \<times> py_error option" where
  "send_track N slot out data =
     (case data of
        [] \<Rightarrow> (out, None)
      | row0 # _ \<Rightarrow>
          (case float_field N row0 START_TIME of
             Inl e \<Rightarrow> (out, Some e)
           | Inr pointer \<Rightarrow> note_loop N slot out pointer data))"

definition send_events ::
  "'f numerics \<Rightarrow> 'f command list \<Rightarrow> string list list \<Rightarrow> string list list \<Rightarrow>
   string list list \<Rightarrow> 'f command list \<times> py_error option" where
  "send_events N out melody_data drum_data bass_data =
     (case send_track N 0 out melody_data of
        (out1, Some e) \<Rightarrow> (out1, Some e)
      | (out1, None) \<Rightarrow>
      (case send_track N 1 out1 drum_data of
        (out2, Some e) \<Rightarrow> (out2, Some e)
      | (out2, None) \<Rightarrow> send_track N 2 out2 bass_data))"

text \<open>
  The two calls at the end of the main block:
  \<^verbatim>\<open>initiate_clips(...)\<close> followed by \<^verbatim>\<open>send_events(...)\<close>.
\<close>

definition sequence_clips ::
  "'f numerics \<Rightarrow> int \<Rightarrow> string list list \<Rightarrow> string list list \<Rightarrow> string list list \<Rightarrow>
   'f command list \<times> py_error option" where
  "sequence_clips N song_tempo melody_data drum_data bass_data =
     (case initiate_clips N [] song_tempo melody_data drum_data bass_data of
        (out, Some e) \<Rightarrow> (out, Some e)
      | (out, None) \<Rightarrow> send_events N out melody_data drum_data bass_data)"

text \<open>
  How a run of the main block ends: normally, by \<^verbatim>\<open>exit()\<close> after a warning, or with an
  uncaught exception.
\<close>

datatype outcome = Completed | WarnedExit string | Raised py_error

text \<open>\<^verbatim>\<open>not x\<close> for the value returned by \<^verbatim>\<open>parse_table_to_list\<close>.\<close>

definition is_falsy :: "string list list option \<Rightarrow> bool" where
  "is_falsy d \<longleftrightarrow> (case d of None \<Rightarrow> True | Some rows \<Rightarrow> rows = [])"

text \<open>\<^verbatim>\<open>text.split(sep, 1)[1]\<close>: what follows the first occurrence of \<open>sep\<close>.\<close>

definition split_once_tail :: "string \<Rightarrow> string \<Rightarrow> py_error + string" where
  "split_once_tail s sep =
     (case index_first s sep of
        None \<Rightarrow> Inl IndexError
      | Some i \<Rightarrow> Inr (drop (i + length sep) s))"

text \<open>
  The main block, from the response text on (the text-generation call is outside the
  model). It returns the commands sent and how the run ended.
\<close>

definition main_run :: "'f numerics \<Rightarrow> string \<Rightarrow> 'f command list \<times> outcome" where
  "main_run N response_text =
     (if \<not> str_contains response_text MELODY \<or> \<not> str_contains response_text DRUM
         \<or> \<not> str_contains response_text BASS
      then ([], WarnedExit ''Incomplete GPT response. Try again.'')
      else
        (let melody_data = parse_table_to_list (find_substring response_text MELODY DRUM) VALID_MIDI_NOTES;
             drum_data = parse_table_to_list (find_substring response_text DRUM BASS) VALID_MIDI_NOTES
         in case split_once_tail response_text BASS of
              Inl e \<Rightarrow> ([], Raised e)
            | Inr bass_text \<Rightarrow>
                (let bass_data = parse_table_to_list bass_text VALID_MIDI_NOTES in
                 if is_falsy melody_data \<or> is_falsy drum_data \<or> is_falsy bass_data
                 then ([], WarnedExit ''Incorrect GPT response MIDI note format. Try again.'')
                 else
                   (case sequence_clips N SONG_TEMPO (the melody_data) (the drum_data) (the bass_data) of
                      (out, Some e) \<Rightarrow> (out, Raised e)
                    | (out, None) \<Rightarrow> (out, Completed)))))"

section \<open>A concrete instance of the numeric built-ins\<close>

text \<open>
  CPython's floats are IEEE 754 binary64 values. A finite one is represented here by the
  rational number it denotes; \<open>binary64\<close> rounds a rational to the nearest representable
  value, ties to the even significand (53 bits, gradual underflow below \<open>2^-1022\<close>).
  Overflow to infinity, NaN and the sign of zero are outside this instance; the concrete
  runs below stay far from them.
\<close>

definition round_half_even :: "rat \<Rightarrow> int" where
  "round_half_even q =
     (let f = \<lfloor>q\<rfloor>; r = q - of_int f
      in if r < 1 / 2 then f else if 1 / 2 < r then f + 1 else if even f then f else f + 1)"

definition pow2 :: "int \<Rightarrow> rat" where
  "pow2 k = (if 0 \<le> k then 2 ^ nat k else 1 / 2 ^ nat (- k))"

text \<open>For \<open>q > 0\<close>: the exponent \<open>e\<close> with \<open>2^e \<le> q < 2^(e+1)\<close>.\<close>

definition binade :: "rat \<Rightarrow> int" where
  "binade q =
     (case quotient_of q of
        (a, b) \<Rightarrow> (let k = bitlen a - bitlen b in if pow2 k \<le> q then k else k - 1))"

definition binary64 :: "rat \<Rightarrow> rat" where
  "binary64 q =
     (if q = 0 then 0
      else (let m = \<bar>q\<bar>; ulp = pow2 (max (binade m - 52) (- 1074))
            in sgn q * (of_int (round_half_even (m / ulp)) * ulp)))"

text \<open>
  Conversions for plain tokens: \<open>[-]digits\<close> for \<^verbatim>\<open>int\<close> and \<open>[-]digits[.digits]\<close> for
  \<^verbatim>\<open>float\<close>, the shapes the prompt of the script asks for. On these tokens they return what
  Python returns, and they reject every token without a digit, as Python does for
  alphabetic tokens other than the spellings of infinity and NaN. Python also accepts
  signs, exponents, underscores and surrounding whitespace, which this instance rejects.
\<close>

definition digit_val :: "char \<Rightarrow> nat option" where
  "digit_val c = (if c \<in> set ''0123456789'' then Some (index_of ''0123456789'' c) else None)"

fun digits_val :: "nat \<Rightarrow> string \<Rightarrow> nat option" where
  "digits_val acc [] = Some acc"
| "digits_val acc (c # cs) =
     (case digit_val c of None \<Rightarrow> None | Some d \<Rightarrow> digits_val (10 * acc + d) cs)"

definition plain_nat :: "string \<Rightarrow> nat option" where
  "plain_nat s = (if s = [] then None else digits_val 0 s)"

definition plain_int :: "string \<Rightarrow> int option" where
  "plain_int s =
     (case s of
        [] \<Rightarrow> None
      | c # cs \<Rightarrow> (if c = CHR ''-'' then map_option (\<lambda>n. - int n) (plain_nat cs)
                   else map_option int (plain_nat s)))"

definition plain_unsigned :: "string \<Rightarrow> rat option" where
  "plain_unsigned s =
     (case split_at (\<lambda>c. c = CHR ''.'') [] s of
        [ip] \<Rightarrow> map_option of_nat (plain_nat ip)
      | [ip, fp] \<Rightarrow>
          (case (plain_nat ip, plain_nat fp) of
             (Some a, Some b) \<Rightarrow> Some (of_nat a + of_nat b / 10 ^ length fp)
           | _ \<Rightarrow> None)
      | _ \<Rightarrow> None)"

definition plain_float :: "string \<Rightarrow> rat option" where
  "plain_float s =
     (case s of
        [] \<Rightarrow> None
      | c # cs \<Rightarrow> (if c = CHR ''-'' then map_option (\<lambda>q. binary64 (- q)) (plain_unsigned cs)
                   else map_option binary64 (plain_unsigned s)))"

text \<open>
  \<^verbatim>\<open>a + b\<close> is the exact sum correctly rounded; \<^verbatim>\<open>round(t, 4)\<close> is the exact value of
  \<open>t\<close> rounded half-even to four decimals, converted back to a float.
\<close>

definition binary64_numerics :: "rat numerics" where
  "binary64_numerics =
     \<lparr> py_int = plain_int,
       py_float = plain_float,
       py_add = (\<lambda>a b. binary64 (a + b)),
       py_round4 = (\<lambda>t. binary64 (of_int (round_half_even (t * 10000)) / 10000)) \<rparr>"

text \<open>The newline character as a string, to write sample texts.\<close>

definition NL :: string where "NL = [CHR 0x0A]"

section \<open>The specification's notions\<close>

text \<open>
  The leading token of a line in the specification's words: the text before any
  whitespace.
\<close>

definition spec_leading_token :: "string \<Rightarrow> string" where
  "spec_leading_token row = takeWhile (\<lambda>c. \<not> is_sep c) row"

text \<open>
  A candidate row in the specification's words: a non-empty line whose leading token is the
  decimal string of some integer of the valid pitch range.
\<close>

definition spec_candidate_row :: "int list \<Rightarrow> string \<Rightarrow> bool" where
  "spec_candidate_row valid_pitch_range row \<longleftrightarrow>
     row \<noteq> [] \<and> list_ex (\<lambda>note. spec_leading_token row = str_int note) valid_pitch_range"

text \<open>
  The numeric content of a row that sequencing reads from every row: pitch, duration and
  velocity, by position.
\<close>

definition note_of :: "'f numerics \<Rightarrow> string list \<Rightarrow> (int \<times> 'f \<times> int) option" where
  "note_of N row =
     (case row of
        p # s # du # v # _ \<Rightarrow>
          (case (py_int N p, py_float N du, py_int N v) of
             (Some a, Some b, Some c) \<Rightarrow> Some (a, b, c)
           | _ \<Rightarrow> None)
      | _ \<Rightarrow> None)"

text \<open>The start time of the first row of a track.\<close>

definition first_start :: "'f numerics \<Rightarrow> string list list \<Rightarrow> 'f option" where
  "first_start N rows =
     (case rows of
        (p # s # _) # _ \<Rightarrow> py_float N s
      | _ \<Rightarrow> None)"

text \<open>
  PatternDuration in the specification's words: the first event's start time plus every
  event's duration, rounded to 4 digits. The sum is accumulated from the left.
\<close>

definition spec_pattern_duration :: "'f numerics \<Rightarrow> 'f \<Rightarrow> 'f list \<Rightarrow> 'f" where
  "spec_pattern_duration N s0 durations = py_round4 N (foldl (py_add N) s0 durations)"

text \<open>
  The add-note commands of one track in the specification's words: event \<open>i\<close> carries the
  pointer that started at the first start time and was advanced by the durations of the
  events before it.
\<close>

definition spec_note_cmds ::
  "'f numerics \<Rightarrow> nat \<Rightarrow> 'f \<Rightarrow> (int \<times> 'f \<times> int) list \<Rightarrow> 'f command list" where
  "spec_note_cmds N slot s0 notes =
     map (\<lambda>i. case notes ! i of
                 (p, du, v) \<Rightarrow>
                   AddNote slot 0 p (foldl (py_add N) s0 (map (\<lambda>n. fst (snd n)) (take i notes))) du v 0)
         [0..<length notes]"

definition is_add_note :: "'f command \<Rightarrow> bool" where
  "is_add_note c = (case c of AddNote _ _ _ _ _ _ _ \<Rightarrow> True | _ \<Rightarrow> False)"

text \<open>
  A track with the start time tokens of the rows after the first replaced: \<open>f\<close> gives the
  new token from the old one. The first row is left as it is.
\<close>

definition replace_start :: "(string \<Rightarrow> string) \<Rightarrow> string list \<Rightarrow> string list" where
  "replace_start f row = (case row of p # s # rest \<Rightarrow> p # f s # rest | _ \<Rightarrow> row)"

definition replace_later_starts :: "(string \<Rightarrow> string) \<Rightarrow> string list list \<Rightarrow> string list list" where
  "replace_later_starts f track =
     (case track of [] \<Rightarrow> [] | row0 # rows \<Rightarrow> row0 # map (replace_start f) rows)"

section \<open>Occurrences of a marker\<close>

lemma occurs_at_iff:
  "occurs_at s sub i \<longleftrightarrow> (\<exists>pre post. s = pre @ sub @ post \<and> length pre = i)"
proof
  assume h: "occurs_at s sub i"
  then have "s = take i s @ sub @ drop (i + length sub) s"
    unfolding occurs_at_def
    by (metis append_take_drop_id drop_drop add.commute)
  moreover from h have "length (take i s) = i"
    unfolding occurs_at_def by simp
  ultimately show "\<exists>pre post. s = pre @ sub @ post \<and> length pre = i" by blast
next
  assume "\<exists>pre post. s = pre @ sub @ post \<and> length pre = i"
  then show "occurs_at s sub i"
    unfolding occurs_at_def by auto
qed

lemma occurs_at_bound: "occurs_at s sub i \<Longrightarrow> i \<le> length s"
  unfolding occurs_at_def by simp

lemma str_contains_iff:
  "str_contains s sub \<longleftrightarrow> (\<exists>pre post. s = pre @ sub @ post)"
proof -
  have "str_contains s sub \<longleftrightarrow> (\<exists>i. occurs_at s sub i)"
    unfolding str_contains_def list_ex_iff
    using occurs_at_bound by fastforce
  then show ?thesis
    by (auto simp: occurs_at_iff)
qed

section \<open>Missing markers\<close>

text \<open>
  C8. When one of the three markers Melody, Drum, Bass does not occur in the response
  text, the run stops before any parsing with the warning of an incomplete response, and
  no command is sent.
\<close>

theorem missing_marker_aborts:
  assumes "m \<in> {MELODY, DRUM, BASS}"
    and "\<not> (\<exists>pre post. response_text = pre @ m @ post)"
  shows "main_run N response_text = ([], WarnedExit ''Incomplete GPT response. Try again.'')"
  using assms unfolding main_run_def by (auto simp: str_contains_iff)

theorem missing_marker_aborts_witness:
  "BASS \<in> {MELODY, DRUM, BASS}
   \<and> \<not> (\<exists>pre post. ''Melody'' @ NL @ ''60 0.0 0.5 100'' @ NL @ ''Drum'' @ NL @ ''36 0.0 1.0 120''
          = pre @ BASS @ post)
   \<and> main_run binary64_numerics
        (''Melody'' @ NL @ ''60 0.0 0.5 100'' @ NL @ ''Drum'' @ NL @ ''36 0.0 1.0 120'')
      = ([], WarnedExit ''Incomplete GPT response. Try again.'')"
proof -
  let ?t = "''Melody'' @ NL @ ''60 0.0 0.5 100'' @ NL @ ''Drum'' @ NL @ ''36 0.0 1.0 120''"
  have h1: "BASS \<in> {MELODY, DRUM, BASS}" by simp
  have "\<not> str_contains ?t BASS" by code_simp
  then have h2: "\<not> (\<exists>pre post. ?t = pre @ BASS @ post)"
    unfolding str_contains_iff .
  from h1 h2 missing_marker_aborts [OF h1 h2, of binary64_numerics] show ?thesis
    by blast
qed

section \<open>The parser never fails\<close>

lemma parse_rows_subseq:
  "subseq (filter P (map f (filter Q xs))) (map f xs)"
proof -
  have "subseq (filter P (map f (filter Q xs))) (map f (filter Q xs))"
    by (rule subseq_filter_left)
  moreover have "subseq (map f (filter Q xs)) (map f xs)"
    by (intro subseq_map subseq_filter_left)
  ultimately show ?thesis by (rule subseq_order.trans)
qed

text \<open>
  C9. \<open>parse_table_to_list\<close> is a total function with no error branch and no numeric
  parameter: it converts no field. On the empty string it returns \<open>None\<close>; on any other
  string it returns a list of rows, each of at least 4 tokens, that is a subsequence of the
  split lines of the input, so the rows are in the order of their lines.
\<close>

theorem parse_table_to_list_total:
  "parse_table_to_list [] notes = None \<and>
   (data \<noteq> [] \<longrightarrow>
      (\<exists>rows. parse_table_to_list data notes = Some rows
         \<and> (\<forall>r \<in> set rows. 4 \<le> length r)
         \<and> subseq rows (map re_split (split_lines data))))"
  unfolding parse_table_to_list_def
  by (simp add: SCHEMA_def parse_rows_subseq)

theorem parse_table_to_list_total_witness:
  "''60 0.0 abc 100'' @ NL @ ''prose'' @ NL @ ''64 0.5 0.5'' \<noteq> []
   \<and> (\<exists>rows. parse_table_to_list (''60 0.0 abc 100'' @ NL @ ''prose'' @ NL @ ''64 0.5 0.5'')
               VALID_MIDI_NOTES = Some rows
         \<and> (\<forall>r \<in> set rows. 4 \<le> length r)
         \<and> subseq rows (map re_split
              (split_lines (''60 0.0 abc 100'' @ NL @ ''prose'' @ NL @ ''64 0.5 0.5''))))"
  using parse_table_to_list_total
    [of VALID_MIDI_NOTES "''60 0.0 abc 100'' @ NL @ ''prose'' @ NL @ ''64 0.5 0.5''"]
  by simp

section \<open>Reading the fields of a row\<close>

lemma schema_index [simp]:
  "index_of SCHEMA PITCH = 0" "index_of SCHEMA START_TIME = 1"
  "index_of SCHEMA DURATION = 2" "index_of SCHEMA VELOCITY = 3"
  by (simp_all add: SCHEMA_def PITCH_def START_TIME_def DURATION_def VELOCITY_def)

lemma fields_of_row:
  "int_field N (p # s # du # v # rest) PITCH =
     (case py_int N p of None \<Rightarrow> Inl ValueError | Some a \<Rightarrow> Inr a)"
  "float_field N (p # s # du # v # rest) START_TIME =
     (case py_float N s of None \<Rightarrow> Inl ValueError | Some a \<Rightarrow> Inr a)"
  "float_field N (p # s # du # v # rest) DURATION =
     (case py_float N du of None \<Rightarrow> Inl ValueError | Some a \<Rightarrow> Inr a)"
  "int_field N (p # s # du # v # rest) VELOCITY =
     (case py_int N v of None \<Rightarrow> Inl ValueError | Some a \<Rightarrow> Inr a)"
  by (simp_all add: int_field_def float_field_def row_get_def)

lemma four_fields: "4 \<le> length row \<Longrightarrow> \<exists>p s du v rest. row = p # s # du # v # rest"
  by (cases row rule: list.exhaust; simp; (cases "tl row"; simp; (cases "tl (tl row)"; simp; (cases "tl (tl (tl row))"; simp))))

lemma note_of_Some:
  assumes "note_of N row = Some (a, b, c)"
  shows "int_field N row PITCH = Inr a \<and> float_field N row DURATION = Inr b
         \<and> int_field N row VELOCITY = Inr c"
proof -
  from assms obtain p s du v rest where row: "row = p # s # du # v # rest"
    unfolding note_of_def by (auto split: list.splits)
  with assms show ?thesis
    by (auto simp: note_of_def fields_of_row split: option.splits)
qed

lemma note_of_None:
  assumes "4 \<le> length row" "note_of N row = None"
  shows "int_field N row PITCH = Inl ValueError \<or> int_field N row VELOCITY = Inl ValueError
         \<or> float_field N row DURATION = Inl ValueError"
proof -
  from assms(1) obtain p s du v rest where row: "row = p # s # du # v # rest"
    using four_fields by blast
  with assms(2) show ?thesis
    by (auto simp: note_of_def fields_of_row split: option.splits)
qed

lemma first_start_Some:
  assumes "first_start N rows = Some s0"
  shows "\<exists>row0 rest. rows = row0 # rest \<and> float_field N row0 START_TIME = Inr s0"
  using assms unfolding first_start_def
  by (auto simp: float_field_def row_get_def split: list.splits)

lemma duration_loop_sum:
  "map (\<lambda>row. float_field N row DURATION) rows = map Inr ds \<Longrightarrow>
   duration_loop N t rows = Inr (foldl (py_add N) t ds)"
proof (induction rows arbitrary: t ds)
  case Nil
  then show ?case by simp
next
  case (Cons row rows)
  then obtain x xs where ds: "ds = x # xs" by (cases ds) auto
  with Cons.prems have "float_field N row DURATION = Inr x"
    and "map (\<lambda>row. float_field N row DURATION) rows = map Inr xs" by auto
  with Cons.IH ds show ?case by simp
qed

lemma calculate_pattern_duration_value:
  assumes "first_start N rows = Some s0"
    and "map (\<lambda>row. float_field N row DURATION) rows = map Inr ds"
  shows "calculate_pattern_duration N rows = Inr (spec_pattern_duration N s0 ds)"
proof -
  from first_start_Some [OF assms(1)] obtain row0 rest
    where "rows = row0 # rest" "float_field N row0 START_TIME = Inr s0" by blast
  with duration_loop_sum [OF assms(2), of s0] show ?thesis
    by (simp add: calculate_pattern_duration_def row_get_def spec_pattern_duration_def)
qed

lemma notes_durations:
  "map (note_of N) rows = map Some evs \<Longrightarrow>
   map (\<lambda>row. float_field N row DURATION) rows = map Inr (map (\<lambda>n. fst (snd n)) evs)"
proof (induction rows arbitrary: evs)
  case Nil
  then show ?case by simp
next
  case (Cons row rows)
  then obtain n ns where "evs = n # ns" by (cases evs) auto
  with Cons show ?case
    by (cases n) (auto dest: note_of_Some)
qed

lemma note_loop_all:
  "map (note_of N) rows = map Some evs \<Longrightarrow>
   note_loop N slot out pointer rows = (out @ spec_note_cmds N slot pointer evs, None)"
proof (induction rows arbitrary: out pointer evs)
  case Nil
  then show ?case by (simp add: spec_note_cmds_def)
next
  case (Cons row rows)
  then obtain n ns where evs: "evs = n # ns" by (cases evs) auto
  obtain a b c where n: "n = (a, b, c)" by (cases n)
  from Cons.prems evs n have row: "note_of N row = Some (a, b, c)"
    and rest: "map (note_of N) rows = map Some ns" by auto
  have shift: "spec_note_cmds N slot pointer ((a, b, c) # ns) =
      AddNote slot 0 a pointer b c 0 # spec_note_cmds N slot (py_add N pointer b) ns"
    by (simp add: spec_note_cmds_def upt_conv_Cons map_Suc_upt [symmetric] del: upt_Suc)
  from note_of_Some [OF row] Cons.IH [OF rest] show ?case
    by (simp add: evs n shift)
qed

lemma send_track_all:
  assumes "first_start N rows = Some s0" "map (note_of N) rows = map Some evs"
  shows "send_track N slot out rows = (out @ spec_note_cmds N slot s0 evs, None)"
proof -
  from first_start_Some [OF assms(1)] obtain row0 rest
    where "rows = row0 # rest" "float_field N row0 START_TIME = Inr s0" by blast
  with note_loop_all [OF assms(2), of slot out s0] show ?thesis
    by (simp add: send_track_def)
qed

lemma pattern_duration_of_notes:
  assumes "first_start N rows = Some s0" "map (note_of N) rows = map Some evs"
  shows "calculate_pattern_duration N rows =
           Inr (spec_pattern_duration N s0 (map (\<lambda>n. fst (snd n)) evs))"
  using calculate_pattern_duration_value [OF assms(1) notes_durations [OF assms(2)]] .

section \<open>The command stream of a successful run\<close>

text \<open>
  C1. For three non-empty tracks whose rows convert (pitch, duration and velocity of every
  row, start time of the first row), the commands sent are exactly: the set-tempo command,
  then for slots 0, 1, 2 a delete-clip and a create-clip carrying the track's pattern
  duration, then for slots 0, 1, 2 one add-note per row in row order, carrying slot, clip
  index 0, pitch, the running pointer, duration, velocity and mute flag 0; and the run
  returns normally.
\<close>

theorem command_stream_exact:
  assumes "first_start N melody = Some sm" "map (note_of N) melody = map Some ms"
    and "first_start N drum = Some sd" "map (note_of N) drum = map Some ds"
    and "first_start N bass = Some sb" "map (note_of N) bass = map Some bs"
  shows "sequence_clips N tempo melody drum bass =
           ([SetTempo tempo,
             DeleteClip 0 0, CreateClip 0 0 (spec_pattern_duration N sm (map (\<lambda>n. fst (snd n)) ms)),
             DeleteClip 1 0, CreateClip 1 0 (spec_pattern_duration N sd (map (\<lambda>n. fst (snd n)) ds)),
             DeleteClip 2 0, CreateClip 2 0 (spec_pattern_duration N sb (map (\<lambda>n. fst (snd n)) bs))]
            @ spec_note_cmds N 0 sm ms @ spec_note_cmds N 1 sd ds @ spec_note_cmds N 2 sb bs,
            None)"
proof -
  let ?clips = "[SetTempo tempo,
             DeleteClip 0 0, CreateClip 0 0 (spec_pattern_duration N sm (map (\<lambda>n. fst (snd n)) ms)),
             DeleteClip 1 0, CreateClip 1 0 (spec_pattern_duration N sd (map (\<lambda>n. fst (snd n)) ds)),
             DeleteClip 2 0, CreateClip 2 0 (spec_pattern_duration N sb (map (\<lambda>n. fst (snd n)) bs))]"
  have init: "initiate_clips N [] tempo melody drum bass = (?clips, None)"
    by (simp add: initiate_clips_def
        pattern_duration_of_notes [OF assms(1,2)] pattern_duration_of_notes [OF assms(3,4)]
        pattern_duration_of_notes [OF assms(5,6)])
  have "send_events N ?clips melody drum bass =
          (?clips @ spec_note_cmds N 0 sm ms @ spec_note_cmds N 1 sd ds @ spec_note_cmds N 2 sb bs,
           None)"
    by (simp add: send_events_def send_track_all [OF assms(1,2)] send_track_all [OF assms(3,4)]
        send_track_all [OF assms(5,6)])
  with init show ?thesis
    by (simp add: sequence_clips_def)
qed

theorem command_stream_exact_witness:
  "first_start binary64_numerics [[''60'', ''0.0'', ''0.5'', ''100''], [''64'', ''0.5'', ''0.5'', ''100'']] = Some 0
   \<and> map (note_of binary64_numerics) [[''60'', ''0.0'', ''0.5'', ''100''], [''64'', ''0.5'', ''0.5'', ''100'']]
       = map Some [(60, 1 / 2, 100), (64, 1 / 2, 100)]
   \<and> first_start binary64_numerics [[''36'', ''0.0'', ''1.0'', ''120'']] = Some 0
   \<and> map (note_of binary64_numerics) [[''36'', ''0.0'', ''1.0'', ''120'']] = map Some [(36, 1, 120)]
   \<and> first_start binary64_numerics [[''40'', ''0.0'', ''1.0'', ''90'']] = Some 0
   \<and> map (note_of binary64_numerics) [[''40'', ''0.0'', ''1.0'', ''90'']] = map Some [(40, 1, 90)]
   \<and> sequence_clips binary64_numerics 60
         [[''60'', ''0.0'', ''0.5'', ''100''], [''64'', ''0.5'', ''0.5'', ''100'']]
         [[''36'', ''0.0'', ''1.0'', ''120'']]
         [[''40'', ''0.0'', ''1.0'', ''90'']]
       = ([SetTempo 60,
           DeleteClip 0 0, CreateClip 0 0 1,
           DeleteClip 1 0, CreateClip 1 0 1,
           DeleteClip 2 0, CreateClip 2 0 1,
           AddNote 0 0 60 0 (1 / 2) 100 0, AddNote 0 0 64 (1 / 2) (1 / 2) 100 0,
           AddNote 1 0 36 0 1 120 0,
           AddNote 2 0 40 0 1 90 0], None)"
proof -
  let ?m = "[[''60'', ''0.0'', ''0.5'', ''100''], [''64'', ''0.5'', ''0.5'', ''100'']]"
  let ?d = "[[''36'', ''0.0'', ''1.0'', ''120'']]"
  let ?b = "[[''40'', ''0.0'', ''1.0'', ''90'']]"
  have m1: "first_start binary64_numerics ?m = Some 0" by code_simp
  have m2: "map (note_of binary64_numerics) ?m = map Some [(60, 1 / 2, 100), (64, 1 / 2, 100)]"
    by code_simp
  have d1: "first_start binary64_numerics ?d = Some 0" by code_simp
  have d2: "map (note_of binary64_numerics) ?d = map Some [(36, 1, 120)]" by code_simp
  have b1: "first_start binary64_numerics ?b = Some 0" by code_simp
  have b2: "map (note_of binary64_numerics) ?b = map Some [(40, 1, 90)]" by code_simp
  have v: "spec_pattern_duration binary64_numerics 0 (map (\<lambda>n. fst (snd n)) [(60::int, 1 / 2, 100::int), (64, 1 / 2, 100)]) = 1"
    "spec_pattern_duration binary64_numerics 0 (map (\<lambda>n. fst (snd n)) [(36::int, 1, 120::int)]) = 1"
    "spec_pattern_duration binary64_numerics 0 (map (\<lambda>n. fst (snd n)) [(40::int, 1, 90::int)]) = 1"
    "spec_note_cmds binary64_numerics 0 0 [(60, 1 / 2, 100), (64, 1 / 2, 100)]
       = [AddNote 0 0 60 0 (1 / 2) 100 0, AddNote 0 0 64 (1 / 2) (1 / 2) 100 0]"
    "spec_note_cmds binary64_numerics 1 0 [(36, 1, 120)] = [AddNote 1 0 36 0 1 120 0]"
    "spec_note_cmds binary64_numerics 2 0 [(40, 1, 90)] = [AddNote 2 0 40 0 1 90 0]"
    by code_simp+
  from command_stream_exact [OF m1 m2 d1 d2 b1 b2, of 60] m1 m2 d1 d2 b1 b2 show ?thesis
    by (simp only: v append_Cons append_Nil simp_thms)
qed

section \<open>Runs that fail in the note loop\<close>

lemma note_of_from_fields:
  assumes "int_field N row PITCH = Inr a" "float_field N row DURATION = Inr b"
    "int_field N row VELOCITY = Inr c"
  shows "note_of N row = Some (a, b, c)"
proof -
  from assms(3) have "4 \<le> length row"
    by (auto simp: int_field_def row_get_def split: if_splits)
  then obtain p s du v rest where row: "row = p # s # du # v # rest"
    using four_fields by blast
  with assms show ?thesis
    by (auto simp: note_of_def fields_of_row split: option.splits)
qed

lemma field_errors:
  assumes "4 \<le> length row"
  shows "int_field N row PITCH = Inl e \<Longrightarrow> e = ValueError"
    and "int_field N row VELOCITY = Inl e \<Longrightarrow> e = ValueError"
    and "float_field N row DURATION = Inl e \<Longrightarrow> e = ValueError"
    and "float_field N row START_TIME = Inl e \<Longrightarrow> e = ValueError"
  using assms
  by (auto simp: int_field_def float_field_def row_get_def split: if_splits option.splits)

lemma note_loop_step:
  "note_loop N slot out pointer (row # rows) =
     (case note_of N row of
        Some (a, b, c) \<Rightarrow>
          note_loop N slot (out @ [AddNote slot 0 a pointer b c 0]) (py_add N pointer b) rows
      | None \<Rightarrow>
          (out, Some (case int_field N row PITCH of
                        Inl e \<Rightarrow> e
                      | Inr _ \<Rightarrow> (case int_field N row VELOCITY of
                                     Inl e \<Rightarrow> e
                                   | Inr _ \<Rightarrow> (case float_field N row DURATION of
                                                  Inl e \<Rightarrow> e | Inr _ \<Rightarrow> ValueError)))))"
proof (cases "note_of N row")
  case None
  then show ?thesis
    by (auto split: sum.splits dest: note_of_from_fields)
next
  case (Some n)
  then show ?thesis
    by (cases n) (auto dest: note_of_Some)
qed

lemma note_loop_shape:
  "\<exists>sent r. note_loop N slot out pointer rows = (out @ sent, r) \<and> (\<forall>c \<in> set sent. is_add_note c)"
proof (induction rows arbitrary: out pointer)
  case Nil
  then show ?case by simp
next
  case (Cons row rows)
  show ?case
  proof (cases "note_of N row")
    case None
    then show ?thesis
      by (simp only: note_loop_step) simp
  next
    case (Some n)
    obtain a b c where n: "n = (a, b, c)" by (cases n)
    from Cons.IH [of "out @ [AddNote slot 0 a pointer b c 0]" "py_add N pointer b"]
    obtain sent r where
      "note_loop N slot (out @ [AddNote slot 0 a pointer b c 0]) (py_add N pointer b) rows
         = ((out @ [AddNote slot 0 a pointer b c 0]) @ sent, r)"
      and "\<forall>c \<in> set sent. is_add_note c" by blast
    then have "note_loop N slot out pointer (row # rows)
                 = (out @ (AddNote slot 0 a pointer b c 0 # sent), r)
               \<and> (\<forall>c \<in> set (AddNote slot 0 a pointer b c 0 # sent). is_add_note c)"
      using Some n by (simp only: note_loop_step) (simp add: is_add_note_def)
    then show ?thesis by blast
  qed
qed

lemma note_loop_None:
  "note_loop N slot out pointer rows = (out', None) \<Longrightarrow> \<forall>row \<in> set rows. note_of N row \<noteq> None"
proof (induction rows arbitrary: out pointer)
  case Nil
  then show ?case by simp
next
  case (Cons row rows)
  show ?case
  proof (cases "note_of N row")
    case None
    with Cons.prems show ?thesis
      by (simp only: note_loop_step) simp
  next
    case (Some n)
    obtain a b c where n: "n = (a, b, c)" by (cases n)
    from Cons.prems Some n
    have "note_loop N slot (out @ [AddNote slot 0 a pointer b c 0]) (py_add N pointer b) rows
            = (out', None)"
      by (simp only: note_loop_step) simp
    from Cons.IH [OF this] Some n show ?thesis by simp
  qed
qed

lemma note_loop_error:
  "note_loop N slot out pointer rows = (out', Some e) \<Longrightarrow> \<forall>row \<in> set rows. 4 \<le> length row
   \<Longrightarrow> e = ValueError"
proof (induction rows arbitrary: out pointer)
  case Nil
  then show ?case by simp
next
  case (Cons row rows)
  show ?case
  proof (cases "note_of N row")
    case None
    from Cons.prems(2) have four: "4 \<le> length row" by simp
    from Cons.prems(1) None show ?thesis
      by (simp only: note_loop_step) (auto split: sum.splits dest: field_errors [OF four])
  next
    case (Some n)
    obtain a b c where n: "n = (a, b, c)" by (cases n)
    from Cons.prems Some n
    have "note_loop N slot (out @ [AddNote slot 0 a pointer b c 0]) (py_add N pointer b) rows
            = (out', Some e)"
      by (simp only: note_loop_step) simp
    from Cons.IH [OF this] Cons.prems(2) show ?thesis by simp
  qed
qed

lemma send_track_shape:
  "\<exists>sent r. send_track N slot out rows = (out @ sent, r) \<and> (\<forall>c \<in> set sent. is_add_note c)"
proof (cases rows)
  case Nil
  then show ?thesis by (simp add: send_track_def)
next
  case (Cons row0 rest)
  show ?thesis
  proof (cases "float_field N row0 START_TIME")
    case (Inl e)
    with Cons show ?thesis by (simp add: send_track_def)
  next
    case (Inr pointer)
    with Cons note_loop_shape [of N slot out pointer rows] show ?thesis
      by (simp add: send_track_def)
  qed
qed

lemma send_track_None:
  assumes "send_track N slot out rows = (out', None)"
  shows "\<forall>row \<in> set rows. note_of N row \<noteq> None"
proof (cases rows)
  case Nil
  then show ?thesis by simp
next
  case (Cons row0 rest)
  with assms obtain pointer where "note_loop N slot out pointer rows = (out', None)"
    by (auto simp: send_track_def split: sum.splits)
  then show ?thesis by (rule note_loop_None)
qed

lemma send_track_error:
  assumes "send_track N slot out rows = (out', Some e)" "\<forall>row \<in> set rows. 4 \<le> length row"
  shows "e = ValueError"
proof (cases rows)
  case Nil
  with assms show ?thesis by (simp add: send_track_def)
next
  case (Cons row0 rest)
  with assms(2) have four: "4 \<le> length row0" by simp
  show ?thesis
  proof (cases "float_field N row0 START_TIME")
    case (Inl e')
    with Cons assms(1) have "e = e'" by (simp add: send_track_def)
    with Inl field_errors(4) [OF four] show ?thesis by blast
  next
    case (Inr pointer)
    with Cons assms(1) have "note_loop N slot out pointer rows = (out', Some e)"
      by (simp add: send_track_def)
    from note_loop_error [OF this assms(2)] show ?thesis .
  qed
qed

lemma send_events_shape:
  "\<exists>sent r. send_events N out melody drum bass = (out @ sent, r) \<and> (\<forall>c \<in> set sent. is_add_note c)"
proof -
  obtain s1 r1 where 1: "send_track N 0 out melody = (out @ s1, r1)" "\<forall>c \<in> set s1. is_add_note c"
    using send_track_shape by blast
  obtain s2 r2 where 2: "send_track N 1 (out @ s1) drum = ((out @ s1) @ s2, r2)"
    "\<forall>c \<in> set s2. is_add_note c"
    using send_track_shape by blast
  obtain s3 r3 where 3: "send_track N 2 ((out @ s1) @ s2) bass = (((out @ s1) @ s2) @ s3, r3)"
    "\<forall>c \<in> set s3. is_add_note c"
    using send_track_shape by blast
  show ?thesis
  proof (cases r1)
    case (Some e)
    with 1 show ?thesis by (auto simp: send_events_def)
  next
    case None
    note r1 = this
    show ?thesis
    proof (cases r2)
      case (Some e)
      with 1 2 r1 have "send_events N out melody drum bass = (out @ (s1 @ s2), r2)"
        by (simp add: send_events_def)
      with 1 2 show ?thesis by (metis Un_iff set_append)
    next
      case None
      with 1 2 3 r1 have "send_events N out melody drum bass = (out @ (s1 @ s2 @ s3), r3)"
        by (simp add: send_events_def)
      with 1 2 3 show ?thesis by (metis Un_iff set_append)
    qed
  qed
qed

lemma send_events_None:
  assumes "send_events N out melody drum bass = (out', None)"
  shows "\<forall>row \<in> set melody \<union> set drum \<union> set bass. note_of N row \<noteq> None"
proof -
  from assms obtain o1 o2 where "send_track N 0 out melody = (o1, None)"
    "send_track N 1 o1 drum = (o2, None)" "send_track N 2 o2 bass = (out', None)"
    by (auto simp: send_events_def split: prod.splits option.splits)
  then show ?thesis
    using send_track_None by blast
qed

lemma send_events_error:
  assumes "send_events N out melody drum bass = (out', Some e)"
    and "\<forall>row \<in> set melody \<union> set drum \<union> set bass. 4 \<le> length row"
  shows "e = ValueError"
proof -
  from assms(1) obtain o1 o2 slot rows where "send_track N slot o1 rows = (o2, Some e)"
    "rows \<in> {melody, drum, bass}"
    by (fastforce simp: send_events_def split: prod.splits option.splits)
  with assms(2) show ?thesis
    using send_track_error by blast
qed

lemma initiate_clips_cases:
  "initiate_clips N [] tempo melody drum bass =
     (case (calculate_pattern_duration N melody, calculate_pattern_duration N drum,
            calculate_pattern_duration N bass) of
        (Inr lm, Inr ld, Inr lb) \<Rightarrow>
          ([SetTempo tempo, DeleteClip 0 0, CreateClip 0 0 lm, DeleteClip 1 0, CreateClip 1 0 ld,
            DeleteClip 2 0, CreateClip 2 0 lb], None)
      | (Inl e, _, _) \<Rightarrow> ([SetTempo tempo], Some e)
      | (Inr _, Inl e, _) \<Rightarrow> ([SetTempo tempo], Some e)
      | (Inr _, Inr _, Inl e) \<Rightarrow> ([SetTempo tempo], Some e))"
  by (simp add: initiate_clips_def split: sum.splits)

text \<open>
  C4, as the code has it. When computing the pattern duration of any of the three tracks
  fails, the set-tempo command has already been sent and is the only command sent: no
  delete-clip, create-clip or add-note command follows, and the run ends with the error.
\<close>

theorem pattern_failure_sends_only_tempo:
  assumes "calculate_pattern_duration N melody = Inl e
           \<or> calculate_pattern_duration N drum = Inl e
           \<or> calculate_pattern_duration N bass = Inl e"
  shows "\<exists>e'. sequence_clips N tempo melody drum bass = ([SetTempo tempo], Some e')"
  using assms
  by (auto simp: sequence_clips_def initiate_clips_cases split: sum.splits)

text \<open>
  C10. When the three pattern durations are computed but some row that passed the
  column-count guard has a pitch or velocity token that does not convert, the run ends with
  a conversion error in the note loop: the set-tempo command and all six delete-clip and
  create-clip commands have been sent, followed by the add-note commands of the rows before
  the failing one.
\<close>

theorem partial_stream_on_late_failure:
  assumes "calculate_pattern_duration N melody = Inr lm"
    and "calculate_pattern_duration N drum = Inr ld"
    and "calculate_pattern_duration N bass = Inr lb"
    and "\<forall>r \<in> set melody \<union> set drum \<union> set bass. 4 \<le> length r"
    and "row \<in> set melody \<union> set drum \<union> set bass"
    and "row = p # s # du # v # rest"
    and "py_int N p = None \<or> py_int N v = None"
  shows "\<exists>sent. sequence_clips N tempo melody drum bass =
           ([SetTempo tempo, DeleteClip 0 0, CreateClip 0 0 lm, DeleteClip 1 0, CreateClip 1 0 ld,
             DeleteClip 2 0, CreateClip 2 0 lb] @ sent, Some ValueError)
         \<and> (\<forall>c \<in> set sent. is_add_note c)"
proof -
  let ?clips = "[SetTempo tempo, DeleteClip 0 0, CreateClip 0 0 lm, DeleteClip 1 0,
                 CreateClip 1 0 ld, DeleteClip 2 0, CreateClip 2 0 lb]"
  have seq: "sequence_clips N tempo melody drum bass = send_events N ?clips melody drum bass"
    using assms(1-3) by (simp add: sequence_clips_def initiate_clips_cases)
  obtain sent r where sent: "send_events N ?clips melody drum bass = (?clips @ sent, r)"
    "\<forall>c \<in> set sent. is_add_note c"
    using send_events_shape by blast
  from assms(6,7) have "note_of N row = None"
    by (auto simp: note_of_def split: option.splits)
  have "r \<noteq> None"
  proof
    assume "r = None"
    with sent(1) have "send_events N ?clips melody drum bass = (?clips @ sent, None)" by simp
    from send_events_None [OF this] assms(5) \<open>note_of N row = None\<close> show False by blast
  qed
  then obtain e where "r = Some e" by auto
  with sent(1) send_events_error [OF _ assms(4)] have "r = Some ValueError" by blast
  with seq sent show ?thesis by auto
qed

section \<open>Conversion errors end the run\<close>

lemma duration_loop_error:
  "duration_loop N t rows = Inl e \<Longrightarrow> \<forall>row \<in> set rows. 4 \<le> length row \<Longrightarrow> e = ValueError"
proof (induction rows arbitrary: t)
  case Nil
  then show ?case by simp
next
  case (Cons row rows)
  from Cons.prems(2) have four: "4 \<le> length row" by simp
  show ?case
  proof (cases "float_field N row DURATION")
    case (Inl e')
    with Cons.prems(1) field_errors(3) [OF four] show ?thesis by auto
  next
    case (Inr du)
    with Cons.prems(1) have "duration_loop N (py_add N t du) rows = Inl e" by simp
    from Cons.IH [OF this] Cons.prems(2) show ?thesis by simp
  qed
qed

lemma calculate_pattern_duration_error:
  assumes "calculate_pattern_duration N rows = Inl e" "rows \<noteq> []"
    "\<forall>row \<in> set rows. 4 \<le> length row"
  shows "e = ValueError"
proof -
  from assms(2) obtain row0 rest where rows: "rows = row0 # rest" by (cases rows) auto
  with assms(3) have four: "4 \<le> length row0" by simp
  show ?thesis
  proof (cases "float_field N row0 START_TIME")
    case (Inl e')
    with assms(1) rows have "e = e'"
      by (simp add: calculate_pattern_duration_def row_get_def)
    with Inl field_errors(4) [OF four] show ?thesis by blast
  next
    case (Inr t0)
    with assms(1) rows have "duration_loop N t0 rows = Inl e"
      by (simp add: calculate_pattern_duration_def row_get_def split: sum.splits)
    from duration_loop_error [OF this assms(3)] show ?thesis .
  qed
qed

lemma calculate_pattern_duration_first:
  assumes "calculate_pattern_duration N (row # rest) = Inr l" "row = p # s # du # v # others"
  shows "py_float N s \<noteq> None"
  using assms
  by (auto simp: calculate_pattern_duration_def row_get_def fields_of_row
      split: sum.splits option.splits)

lemma sequence_clips_cases:
  "sequence_clips N tempo melody drum bass =
     (case (calculate_pattern_duration N melody, calculate_pattern_duration N drum,
            calculate_pattern_duration N bass) of
        (Inr lm, Inr ld, Inr lb) \<Rightarrow>
          send_events N [SetTempo tempo, DeleteClip 0 0, CreateClip 0 0 lm, DeleteClip 1 0,
            CreateClip 1 0 ld, DeleteClip 2 0, CreateClip 2 0 lb] melody drum bass
      | (Inl e, _, _) \<Rightarrow> ([SetTempo tempo], Some e)
      | (Inr _, Inl e, _) \<Rightarrow> ([SetTempo tempo], Some e)
      | (Inr _, Inr _, Inl e) \<Rightarrow> ([SetTempo tempo], Some e))"
  by (simp add: sequence_clips_def initiate_clips_cases split: sum.splits)

lemma sequence_clips_error:
  assumes "sequence_clips N tempo melody drum bass = (out, Some e)"
    and "melody \<noteq> []" "drum \<noteq> []" "bass \<noteq> []"
    and four: "\<forall>row \<in> set melody \<union> set drum \<union> set bass. 4 \<le> length row"
  shows "e = ValueError"
proof -
  from four have f: "\<forall>row \<in> set melody. 4 \<le> length row" "\<forall>row \<in> set drum. 4 \<le> length row"
    "\<forall>row \<in> set bass. 4 \<le> length row" by auto
  from assms(1) consider
      "calculate_pattern_duration N melody = Inl e"
    | "calculate_pattern_duration N drum = Inl e"
    | "calculate_pattern_duration N bass = Inl e"
    | clips where "send_events N clips melody drum bass = (out, Some e)"
    by (auto simp: sequence_clips_cases split: sum.splits)
  then show ?thesis
  proof cases
    case 1
    from calculate_pattern_duration_error [OF this assms(2) f(1)] show ?thesis .
  next
    case 2
    from calculate_pattern_duration_error [OF this assms(3) f(2)] show ?thesis .
  next
    case 3
    from calculate_pattern_duration_error [OF this assms(4) f(3)] show ?thesis .
  next
    case 4
    from send_events_error [OF this four] show ?thesis .
  qed
qed

lemma sequence_clips_None:
  assumes "sequence_clips N tempo melody drum bass = (out, None)"
  shows "(\<forall>row \<in> set melody \<union> set drum \<union> set bass. note_of N row \<noteq> None)
         \<and> (\<forall>track \<in> {melody, drum, bass}. \<exists>l. calculate_pattern_duration N track = Inr l)"
proof -
  from assms obtain lm ld lb clips where
    "calculate_pattern_duration N melody = Inr lm" "calculate_pattern_duration N drum = Inr ld"
    "calculate_pattern_duration N bass = Inr lb"
    "send_events N clips melody drum bass = (out, None)"
    by (auto simp: sequence_clips_cases split: sum.splits)
  with send_events_None show ?thesis by blast
qed

lemma sequence_clips_bad_row:
  assumes ne: "melody \<noteq> []" "drum \<noteq> []" "bass \<noteq> []"
    and four: "\<forall>r \<in> set melody \<union> set drum \<union> set bass. 4 \<le> length r"
    and track: "track \<in> {melody, drum, bass}" "row \<in> set track"
    and row: "row = p # s # du # v # rest"
    and bad: "py_int N p = None \<or> py_float N du = None \<or> py_int N v = None
              \<or> (row = hd track \<and> py_float N s = None)"
  shows "\<exists>out. sequence_clips N tempo melody drum bass = (out, Some ValueError)"
proof -
  obtain out r where res: "sequence_clips N tempo melody drum bass = (out, r)"
    by (cases "sequence_clips N tempo melody drum bass")
  have "r \<noteq> None"
  proof
    assume "r = None"
    with res have ok: "sequence_clips N tempo melody drum bass = (out, None)" by simp
    from sequence_clips_None [OF ok] track have conv: "note_of N row \<noteq> None"
      and "\<exists>l. calculate_pattern_duration N track = Inr l" by auto
    then obtain l where l: "calculate_pattern_duration N track = Inr l" by blast
    from conv row have "py_int N p \<noteq> None" "py_float N du \<noteq> None" "py_int N v \<noteq> None"
      by (auto simp: note_of_def split: option.splits)
    with bad have hd: "row = hd track" and s: "py_float N s = None" by auto
    from track(2) hd obtain others where "track = row # others" by (cases track) auto
    with l have "calculate_pattern_duration N (row # others) = Inr l" by simp
    from calculate_pattern_duration_first [OF this row] s show False by simp
  qed
  then obtain e where "r = Some e" by auto
  with res sequence_clips_error [OF _ ne four] show ?thesis by blast
qed

lemma find_holds: "find P xs = Some x \<Longrightarrow> P x"
  by (induction xs) (auto split: if_splits)

lemma rindex_occurs: "rindex s sub k = Some i \<Longrightarrow> occurs_at s sub i"
  unfolding rindex_def by (rule find_holds)

lemma index_first_occurs: "index_first s sub = Some i \<Longrightarrow> occurs_at s sub i"
  unfolding index_first_def by (rule find_holds)

lemma str_contains_occurs: "str_contains s sub \<longleftrightarrow> (\<exists>i. occurs_at s sub i)"
  unfolding str_contains_def list_ex_iff
  using occurs_at_bound by fastforce

lemma find_substring_contains:
  assumes "find_substring s a b \<noteq> []"
  shows "str_contains s a \<and> str_contains s b"
proof -
  from assms obtain i e where "rindex s a 0 = Some i" "rindex s b (i + length a) = Some e"
    by (auto simp: find_substring_def Let_def split: option.splits)
  then have "occurs_at s a i" "occurs_at s b e"
    by (auto dest: rindex_occurs)
  then show ?thesis
    unfolding str_contains_occurs by blast
qed

lemma split_once_tail_contains:
  assumes "split_once_tail s sep = Inr t"
  shows "str_contains s sep"
proof -
  from assms obtain i where "index_first s sep = Some i"
    by (auto simp: split_once_tail_def split: option.splits)
  then have "occurs_at s sep i"
    by (rule index_first_occurs)
  then show ?thesis
    unfolding str_contains_occurs by blast
qed

lemma parse_Some_nonempty: "parse_table_to_list data notes = Some rows \<Longrightarrow> data \<noteq> []"
  by (auto simp: parse_table_to_list_def split: if_splits)

lemma parse_rows_four:
  "parse_table_to_list data notes = Some rows \<Longrightarrow> \<forall>r \<in> set rows. 4 \<le> length r"
  by (auto simp: parse_table_to_list_def SCHEMA_def split: if_splits)

lemma main_run_sequencing:
  assumes m: "parse_table_to_list (find_substring text MELODY DRUM) VALID_MIDI_NOTES = Some melody"
    and d: "parse_table_to_list (find_substring text DRUM BASS) VALID_MIDI_NOTES = Some drum"
    and bt: "split_once_tail text BASS = Inr bass_text"
    and b: "parse_table_to_list bass_text VALID_MIDI_NOTES = Some bass"
    and ne: "melody \<noteq> []" "drum \<noteq> []" "bass \<noteq> []"
  shows "main_run N text =
           (case sequence_clips N SONG_TEMPO melody drum bass of
              (out, Some e) \<Rightarrow> (out, Raised e)
            | (out, None) \<Rightarrow> (out, Completed))"
proof -
  from find_substring_contains [OF parse_Some_nonempty [OF m]]
    split_once_tail_contains [OF bt]
  have "str_contains text MELODY" "str_contains text DRUM" "str_contains text BASS" by auto
  with m d bt b ne show ?thesis
    by (simp add: main_run_def is_falsy_def)
qed

lemma replace_start_fields:
  "int_field N (replace_start f row) PITCH = int_field N row PITCH"
  "int_field N (replace_start f row) VELOCITY = int_field N row VELOCITY"
  "float_field N (replace_start f row) DURATION = float_field N row DURATION"
proof -
  have "row_get (replace_start f row) 0 = row_get row 0
        \<and> row_get (replace_start f row) 2 = row_get row 2
        \<and> row_get (replace_start f row) 3 = row_get row 3"
    by (auto simp: replace_start_def row_get_def split: list.splits)
  then show "int_field N (replace_start f row) PITCH = int_field N row PITCH"
    "int_field N (replace_start f row) VELOCITY = int_field N row VELOCITY"
    "float_field N (replace_start f row) DURATION = float_field N row DURATION"
    by (simp_all add: int_field_def float_field_def)
qed

lemma note_loop_replace:
  "note_loop N slot out pointer (map (replace_start f) rows) = note_loop N slot out pointer rows"
  by (induction rows arbitrary: out pointer) (simp_all add: replace_start_fields split: sum.splits)

lemma duration_loop_replace:
  "duration_loop N t (map (replace_start f) rows) = duration_loop N t rows"
  by (induction rows arbitrary: t) (simp_all add: replace_start_fields split: sum.splits)

lemma calculate_pattern_duration_replace:
  "calculate_pattern_duration N (replace_later_starts f track) = calculate_pattern_duration N track"
proof (cases track)
  case Nil
  then show ?thesis by (simp add: replace_later_starts_def)
next
  case (Cons row0 rows)
  then show ?thesis
    by (simp add: replace_later_starts_def calculate_pattern_duration_def row_get_def
        duration_loop_replace split: sum.splits)
qed

lemma send_track_replace:
  "send_track N slot out (replace_later_starts f track) = send_track N slot out track"
proof (cases track)
  case Nil
  then show ?thesis by (simp add: replace_later_starts_def)
next
  case (Cons row0 rows)
  then show ?thesis
    by (simp add: replace_later_starts_def send_track_def note_loop_replace split: sum.splits)
qed

lemma sequence_clips_replace:
  "sequence_clips N tempo (replace_later_starts f melody) (replace_later_starts g drum)
     (replace_later_starts h bass) = sequence_clips N tempo melody drum bass"
  unfolding sequence_clips_def initiate_clips_def send_events_def
    calculate_pattern_duration_replace send_track_replace
  by (rule refl)

text \<open>
  C6, as the code has it. In a run in which each of the three tables parses to at least one
  row: when some row has a pitch, duration or velocity token that does not convert, or the
  first row of a track has a start time token that does not convert, the run ends with a
  conversion error, wherever the row stands in its table. The start time tokens of the rows
  after the first are never converted: the run is the same whatever tokens stand in their
  place.
\<close>

theorem malformed_field_aborts:
  assumes m: "parse_table_to_list (find_substring text MELODY DRUM) VALID_MIDI_NOTES = Some melody"
    and d: "parse_table_to_list (find_substring text DRUM BASS) VALID_MIDI_NOTES = Some drum"
    and bt: "split_once_tail text BASS = Inr bass_text"
    and b: "parse_table_to_list bass_text VALID_MIDI_NOTES = Some bass"
    and ne: "melody \<noteq> []" "drum \<noteq> []" "bass \<noteq> []"
  shows "(\<forall>track row p s du v rest.
            track \<in> {melody, drum, bass} \<and> row \<in> set track \<and> row = p # s # du # v # rest
            \<and> (py_int N p = None \<or> py_float N du = None \<or> py_int N v = None
                \<or> (row = hd track \<and> py_float N s = None))
          \<longrightarrow> (\<exists>out. main_run N text = (out, Raised ValueError)))
       \<and> (\<forall>f g h. main_run N text =
             (case sequence_clips N SONG_TEMPO (replace_later_starts f melody)
                     (replace_later_starts g drum) (replace_later_starts h bass) of
                (out, Some e) \<Rightarrow> (out, Raised e)
              | (out, None) \<Rightarrow> (out, Completed)))"
proof (intro conjI allI impI)
  fix track row p s du v rest
  assume h: "track \<in> {melody, drum, bass} \<and> row \<in> set track \<and> row = p # s # du # v # rest
            \<and> (py_int N p = None \<or> py_float N du = None \<or> py_int N v = None
                \<or> (row = hd track \<and> py_float N s = None))"
  then have track: "track \<in> {melody, drum, bass}" "row \<in> set track"
    and row: "row = p # s # du # v # rest"
    and bad: "py_int N p = None \<or> py_float N du = None \<or> py_int N v = None
              \<or> (row = hd track \<and> py_float N s = None)" by blast+
  from parse_rows_four [OF m] parse_rows_four [OF d] parse_rows_four [OF b]
  have four: "\<forall>r \<in> set melody \<union> set drum \<union> set bass. 4 \<le> length r" by auto
  from sequence_clips_bad_row [OF ne four track row bad, of SONG_TEMPO]
  obtain out where "sequence_clips N SONG_TEMPO melody drum bass = (out, Some ValueError)" ..
  with main_run_sequencing [OF m d bt b ne, of N]
  show "\<exists>out. main_run N text = (out, Raised ValueError)" by simp
next
  fix f g h
  show "main_run N text =
             (case sequence_clips N SONG_TEMPO (replace_later_starts f melody)
                     (replace_later_starts g drum) (replace_later_starts h bass) of
                (out, Some e) \<Rightarrow> (out, Raised e)
              | (out, None) \<Rightarrow> (out, Completed))"
    by (simp only: sequence_clips_replace main_run_sequencing [OF m d bt b ne])
qed

section \<open>Concrete runs\<close>

text \<open>
  C4 as stated fails: with a duration token that does not convert in the melody table, the
  set-tempo command is sent before the failure.
\<close>

theorem tempo_sent_before_duration_failure:
  "calculate_pattern_duration binary64_numerics [[''60'', ''0.0'', ''abc'', ''100'']] = Inl ValueError
   \<and> main_run binary64_numerics
        (''Melody'' @ NL @ ''60 0.0 abc 100'' @ NL @ ''Drum'' @ NL @ ''36 0.0 1.0 120'' @ NL
         @ ''Bass'' @ NL @ ''40 0.0 1.0 90'')
      = ([SetTempo 60], Raised ValueError)"
  by code_simp

theorem pattern_failure_sends_only_tempo_witness:
  "(calculate_pattern_duration binary64_numerics [[''60'', ''0.0'', ''abc'', ''100'']] = Inl ValueError
    \<or> calculate_pattern_duration binary64_numerics [[''36'', ''0.0'', ''1.0'', ''120'']] = Inl ValueError
    \<or> calculate_pattern_duration binary64_numerics [[''40'', ''0.0'', ''1.0'', ''90'']] = Inl ValueError)
   \<and> (\<exists>e'. sequence_clips binary64_numerics 60 [[''60'', ''0.0'', ''abc'', ''100'']]
               [[''36'', ''0.0'', ''1.0'', ''120'']] [[''40'', ''0.0'', ''1.0'', ''90'']]
             = ([SetTempo 60], Some e'))"
proof -
  have h: "calculate_pattern_duration binary64_numerics [[''60'', ''0.0'', ''abc'', ''100'']] = Inl ValueError
    \<or> calculate_pattern_duration binary64_numerics [[''36'', ''0.0'', ''1.0'', ''120'']] = Inl ValueError
    \<or> calculate_pattern_duration binary64_numerics [[''40'', ''0.0'', ''1.0'', ''90'']] = Inl ValueError"
    by code_simp
  from h pattern_failure_sends_only_tempo [OF h, of 60] show ?thesis by blast
qed

theorem partial_stream_on_late_failure_witness:
  "calculate_pattern_duration binary64_numerics
      [[''60'', ''0.0'', ''0.5'', ''100''], [''64'', ''0.5'', ''0.5'', ''abc'']] = Inr 1
   \<and> calculate_pattern_duration binary64_numerics [[''36'', ''0.0'', ''1.0'', ''120'']] = Inr 1
   \<and> calculate_pattern_duration binary64_numerics [[''40'', ''0.0'', ''1.0'', ''90'']] = Inr 1
   \<and> [''64'', ''0.5'', ''0.5'', ''abc'']
         \<in> set [[''60'', ''0.0'', ''0.5'', ''100''], [''64'', ''0.5'', ''0.5'', ''abc'']]
            \<union> set [[''36'', ''0.0'', ''1.0'', ''120'']] \<union> set [[''40'', ''0.0'', ''1.0'', ''90'']]
   \<and> (py_int binary64_numerics ''64'' = None \<or> py_int binary64_numerics ''abc'' = None)
   \<and> (\<exists>sent. sequence_clips binary64_numerics 60
                 [[''60'', ''0.0'', ''0.5'', ''100''], [''64'', ''0.5'', ''0.5'', ''abc'']]
                 [[''36'', ''0.0'', ''1.0'', ''120'']] [[''40'', ''0.0'', ''1.0'', ''90'']]
               = ([SetTempo 60, DeleteClip 0 0, CreateClip 0 0 1, DeleteClip 1 0, CreateClip 1 0 1,
                   DeleteClip 2 0, CreateClip 2 0 1] @ sent, Some ValueError)
             \<and> (\<forall>c \<in> set sent. is_add_note c))
   \<and> sequence_clips binary64_numerics 60
         [[''60'', ''0.0'', ''0.5'', ''100''], [''64'', ''0.5'', ''0.5'', ''abc'']]
         [[''36'', ''0.0'', ''1.0'', ''120'']] [[''40'', ''0.0'', ''1.0'', ''90'']]
       = ([SetTempo 60, DeleteClip 0 0, CreateClip 0 0 1, DeleteClip 1 0, CreateClip 1 0 1,
           DeleteClip 2 0, CreateClip 2 0 1, AddNote 0 0 60 0 (1 / 2) 100 0], Some ValueError)"
proof -
  let ?m = "[[''60'', ''0.0'', ''0.5'', ''100''], [''64'', ''0.5'', ''0.5'', ''abc'']]"
  let ?d = "[[''36'', ''0.0'', ''1.0'', ''120'']]"
  let ?b = "[[''40'', ''0.0'', ''1.0'', ''90'']]"
  have m: "calculate_pattern_duration binary64_numerics ?m = Inr 1" by code_simp
  have d: "calculate_pattern_duration binary64_numerics ?d = Inr 1" by code_simp
  have b: "calculate_pattern_duration binary64_numerics ?b = Inr 1" by code_simp
  have four: "\<forall>r \<in> set ?m \<union> set ?d \<union> set ?b. 4 \<le> length r" by simp
  have mem: "[''64'', ''0.5'', ''0.5'', ''abc''] \<in> set ?m \<union> set ?d \<union> set ?b" by simp
  have bad: "py_int binary64_numerics ''64'' = None \<or> py_int binary64_numerics ''abc'' = None"
    by code_simp
  have run: "sequence_clips binary64_numerics 60 ?m ?d ?b
       = ([SetTempo 60, DeleteClip 0 0, CreateClip 0 0 1, DeleteClip 1 0, CreateClip 1 0 1,
           DeleteClip 2 0, CreateClip 2 0 1, AddNote 0 0 60 0 (1 / 2) 100 0], Some ValueError)"
    by code_simp
  from partial_stream_on_late_failure [OF m d b four mem refl bad, of 60] m d b mem bad run
  show ?thesis by blast
qed

text \<open>
  C6 as stated fails: a row after the first with a start time token that does not convert
  passes both guards, and the run completes with all its commands.
\<close>

theorem later_start_time_never_converted:
  "parse_table_to_list
      (find_substring (''Melody'' @ NL @ ''60 0.0 0.5 100'' @ NL @ ''64 abc 0.5 100'' @ NL
         @ ''Drum'' @ NL @ ''36 0.0 1.0 120'' @ NL @ ''Bass'' @ NL @ ''40 0.0 1.0 90'') MELODY DRUM)
      VALID_MIDI_NOTES
     = Some [[''60'', ''0.0'', ''0.5'', ''100''], [''64'', ''abc'', ''0.5'', ''100'']]
   \<and> py_float binary64_numerics ''abc'' = None
   \<and> main_run binary64_numerics
        (''Melody'' @ NL @ ''60 0.0 0.5 100'' @ NL @ ''64 abc 0.5 100'' @ NL
         @ ''Drum'' @ NL @ ''36 0.0 1.0 120'' @ NL @ ''Bass'' @ NL @ ''40 0.0 1.0 90'')
      = ([SetTempo 60, DeleteClip 0 0, CreateClip 0 0 1, DeleteClip 1 0, CreateClip 1 0 1,
          DeleteClip 2 0, CreateClip 2 0 1,
          AddNote 0 0 60 0 (1 / 2) 100 0, AddNote 0 0 64 (1 / 2) (1 / 2) 100 0,
          AddNote 1 0 36 0 1 120 0, AddNote 2 0 40 0 1 90 0], Completed)"
  by code_simp

theorem malformed_field_aborts_witness:
  "parse_table_to_list
      (find_substring (''Melody'' @ NL @ ''60 0.0 0.5 100'' @ NL @ ''64 abc 0.5 xyz'' @ NL
         @ ''Drum'' @ NL @ ''36 0.0 1.0 120'' @ NL @ ''Bass'' @ NL @ ''40 0.0 1.0 90'') MELODY DRUM)
      VALID_MIDI_NOTES
     = Some [[''60'', ''0.0'', ''0.5'', ''100''], [''64'', ''abc'', ''0.5'', ''xyz'']]
   \<and> parse_table_to_list
      (find_substring (''Melody'' @ NL @ ''60 0.0 0.5 100'' @ NL @ ''64 abc 0.5 xyz'' @ NL
         @ ''Drum'' @ NL @ ''36 0.0 1.0 120'' @ NL @ ''Bass'' @ NL @ ''40 0.0 1.0 90'') DRUM BASS)
      VALID_MIDI_NOTES
     = Some [[''36'', ''0.0'', ''1.0'', ''120'']]
   \<and> split_once_tail (''Melody'' @ NL @ ''60 0.0 0.5 100'' @ NL @ ''64 abc 0.5 xyz'' @ NL
         @ ''Drum'' @ NL @ ''36 0.0 1.0 120'' @ NL @ ''Bass'' @ NL @ ''40 0.0 1.0 90'') BASS
     = Inr (NL @ ''40 0.0 1.0 90'')
   \<and> parse_table_to_list (NL @ ''40 0.0 1.0 90'') VALID_MIDI_NOTES
     = Some [[''40'', ''0.0'', ''1.0'', ''90'']]
   \<and> py_int binary64_numerics ''xyz'' = None
   \<and> (\<exists>out. main_run binary64_numerics
          (''Melody'' @ NL @ ''60 0.0 0.5 100'' @ NL @ ''64 abc 0.5 xyz'' @ NL
           @ ''Drum'' @ NL @ ''36 0.0 1.0 120'' @ NL @ ''Bass'' @ NL @ ''40 0.0 1.0 90'')
        = (out, Raised ValueError))
   \<and> main_run binary64_numerics
          (''Melody'' @ NL @ ''60 0.0 0.5 100'' @ NL @ ''64 abc 0.5 xyz'' @ NL
           @ ''Drum'' @ NL @ ''36 0.0 1.0 120'' @ NL @ ''Bass'' @ NL @ ''40 0.0 1.0 90'')
       = (case sequence_clips binary64_numerics SONG_TEMPO
                 (replace_later_starts (\<lambda>s. ''0.5'')
                    [[''60'', ''0.0'', ''0.5'', ''100''], [''64'', ''abc'', ''0.5'', ''xyz'']])
                 (replace_later_starts (\<lambda>s. ''0.5'') [[''36'', ''0.0'', ''1.0'', ''120'']])
                 (replace_later_starts (\<lambda>s. ''0.5'') [[''40'', ''0.0'', ''1.0'', ''90'']]) of
            (out, Some e) \<Rightarrow> (out, Raised e)
          | (out, None) \<Rightarrow> (out, Completed))"
proof -
  let ?t = "''Melody'' @ NL @ ''60 0.0 0.5 100'' @ NL @ ''64 abc 0.5 xyz'' @ NL
         @ ''Drum'' @ NL @ ''36 0.0 1.0 120'' @ NL @ ''Bass'' @ NL @ ''40 0.0 1.0 90''"
  let ?m = "[[''60'', ''0.0'', ''0.5'', ''100''], [''64'', ''abc'', ''0.5'', ''xyz'']]"
  let ?d = "[[''36'', ''0.0'', ''1.0'', ''120'']]"
  let ?b = "[[''40'', ''0.0'', ''1.0'', ''90'']]"
  have m: "parse_table_to_list (find_substring ?t MELODY DRUM) VALID_MIDI_NOTES = Some ?m"
    by code_simp
  have d: "parse_table_to_list (find_substring ?t DRUM BASS) VALID_MIDI_NOTES = Some ?d"
    by code_simp
  have bt: "split_once_tail ?t BASS = Inr (NL @ ''40 0.0 1.0 90'')" by code_simp
  have b: "parse_table_to_list (NL @ ''40 0.0 1.0 90'') VALID_MIDI_NOTES = Some ?b" by code_simp
  have ne: "?m \<noteq> []" "?d \<noteq> []" "?b \<noteq> []" by simp_all
  have v: "py_int binary64_numerics ''xyz'' = None" by code_simp
  note inst = malformed_field_aborts [OF m d bt b ne, of binary64_numerics]
  from inst have all: "\<forall>track row p s du v rest.
            track \<in> {?m, ?d, ?b} \<and> row \<in> set track \<and> row = p # s # du # v # rest
            \<and> (py_int binary64_numerics p = None \<or> py_float binary64_numerics du = None
                \<or> py_int binary64_numerics v = None
                \<or> (row = hd track \<and> py_float binary64_numerics s = None))
          \<longrightarrow> (\<exists>out. main_run binary64_numerics ?t = (out, Raised ValueError))"
    by (rule conjunct1)
  have "?m \<in> {?m, ?d, ?b} \<and> [''64'', ''abc'', ''0.5'', ''xyz''] \<in> set ?m
        \<and> [''64'', ''abc'', ''0.5'', ''xyz''] = ''64'' # ''abc'' # ''0.5'' # ''xyz'' # []
        \<and> (py_int binary64_numerics ''64'' = None \<or> py_float binary64_numerics ''0.5'' = None
            \<or> py_int binary64_numerics ''xyz'' = None
            \<or> ([''64'', ''abc'', ''0.5'', ''xyz''] = hd ?m \<and> py_float binary64_numerics ''abc'' = None))"
    using v by simp
  with all have raised: "\<exists>out. main_run binary64_numerics ?t = (out, Raised ValueError)"
    by blast
  from inst have same: "main_run binary64_numerics ?t =
      (case sequence_clips binary64_numerics SONG_TEMPO (replace_later_starts (\<lambda>s. ''0.5'') ?m)
              (replace_later_starts (\<lambda>s. ''0.5'') ?d) (replace_later_starts (\<lambda>s. ''0.5'') ?b) of
         (out, Some e) \<Rightarrow> (out, Raised e)
       | (out, None) \<Rightarrow> (out, Completed))"
    by blast
  from m d bt b v raised same show ?thesis by blast
qed

section \<open>Extraction between two markers\<close>

lemma find_rev_upt_Some:
  "find P (rev [k..<n]) = Some i \<longleftrightarrow> k \<le> i \<and> i < n \<and> P i \<and> (\<forall>j. i < j \<and> j < n \<longrightarrow> \<not> P j)"
proof (induction n)
  case 0
  then show ?case by simp
next
  case (Suc n)
  show ?case
  proof (cases "k \<le> n")
    case False
    then show ?thesis by auto
  next
    case True
    then have unfold: "find P (rev [k..<Suc n]) = (if P n then Some n else find P (rev [k..<n]))"
      by simp
    show ?thesis
    proof (cases "P n")
      case True
      have "(n = i) = (k \<le> i \<and> i < Suc n \<and> P i \<and> (\<forall>j. i < j \<and> j < Suc n \<longrightarrow> \<not> P j))"
        using True \<open>k \<le> n\<close> by (auto simp: less_Suc_eq)
      with True unfold show ?thesis by auto
    next
      case False
      have "(k \<le> i \<and> i < n \<and> P i \<and> (\<forall>j. i < j \<and> j < n \<longrightarrow> \<not> P j))
            = (k \<le> i \<and> i < Suc n \<and> P i \<and> (\<forall>j. i < j \<and> j < Suc n \<longrightarrow> \<not> P j))"
        using False by (metis less_Suc_eq)
      with False unfold Suc.IH show ?thesis by simp
    qed
  qed
qed

lemma find_rev_upt_None:
  "find P (rev [k..<n]) = None \<longleftrightarrow> (\<forall>j. k \<le> j \<and> j < n \<longrightarrow> \<not> P j)"
  by (auto simp: find_None_iff)

lemma rindex_Some_iff:
  "rindex s sub k = Some i \<longleftrightarrow>
     k \<le> i \<and> occurs_at s sub i \<and> (\<forall>j. k \<le> j \<and> occurs_at s sub j \<longrightarrow> j \<le> i)"
proof -
  have "rindex s sub k = Some i \<longleftrightarrow>
      k \<le> i \<and> i < Suc (length s) \<and> occurs_at s sub i
      \<and> (\<forall>j. i < j \<and> j < Suc (length s) \<longrightarrow> \<not> occurs_at s sub j)"
    unfolding rindex_def by (rule find_rev_upt_Some)
  also have "\<dots> \<longleftrightarrow> k \<le> i \<and> occurs_at s sub i \<and> (\<forall>j. k \<le> j \<and> occurs_at s sub j \<longrightarrow> j \<le> i)"
    using occurs_at_bound [of s sub]
    by (metis le_imp_less_Suc less_le_not_le linorder_le_less_linear order.trans)
  finally show ?thesis .
qed

lemma rindex_None_iff:
  "rindex s sub k = None \<longleftrightarrow> (\<forall>j. k \<le> j \<longrightarrow> \<not> occurs_at s sub j)"
proof -
  have "rindex s sub k = None \<longleftrightarrow> (\<forall>j. k \<le> j \<and> j < Suc (length s) \<longrightarrow> \<not> occurs_at s sub j)"
    unfolding rindex_def by (rule find_rev_upt_None)
  also have "\<dots> \<longleftrightarrow> (\<forall>j. k \<le> j \<longrightarrow> \<not> occurs_at s sub j)"
    using occurs_at_bound [of s sub] by (meson le_imp_less_Suc)
  finally show ?thesis .
qed

text \<open>
  C5. Let \<open>i\<close> be the last occurrence of the start marker and \<open>s = i + length start\<close> the
  position right after it. If \<open>e\<close> is the last occurrence of the end marker at or after \<open>s\<close>,
  \<open>find_substring\<close> returns the text from \<open>s\<close> up to \<open>e\<close>, that is, strictly between the two
  markers; if the end marker does not occur at or after \<open>s\<close>, it returns the empty string.
\<close>

theorem find_substring_between:
  assumes "occurs_at string start i" and "\<forall>j. occurs_at string start j \<longrightarrow> j \<le> i"
  shows "(\<forall>e. i + length start \<le> e \<and> occurs_at string en e
              \<and> (\<forall>j. i + length start \<le> j \<and> occurs_at string en j \<longrightarrow> j \<le> e)
            \<longrightarrow> find_substring string start en
                  = take (e - (i + length start)) (drop (i + length start) string))
         \<and> ((\<forall>j. i + length start \<le> j \<longrightarrow> \<not> occurs_at string en j)
            \<longrightarrow> find_substring string start en = [])"
proof -
  from assms have start: "rindex string start 0 = Some i"
    by (simp add: rindex_Some_iff)
  show ?thesis
  proof (intro conjI allI impI)
    fix e
    assume "i + length start \<le> e \<and> occurs_at string en e
              \<and> (\<forall>j. i + length start \<le> j \<and> occurs_at string en j \<longrightarrow> j \<le> e)"
    then have "rindex string en (i + length start) = Some e"
      by (simp add: rindex_Some_iff)
    with start show "find_substring string start en
                  = take (e - (i + length start)) (drop (i + length start) string)"
      by (simp add: find_substring_def slice_def Let_def)
  next
    assume "\<forall>j. i + length start \<le> j \<longrightarrow> \<not> occurs_at string en j"
    then have "rindex string en (i + length start) = None"
      by (simp add: rindex_None_iff)
    with start show "find_substring string start en = []"
      by (simp add: find_substring_def)
  qed
qed

theorem find_substring_between_witness:
  "rindex ''Melody x Drum 60 0.0 0.5 100 Melody 64 0.5 0.5 100 Drum 36 Drum Bass'' MELODY 0 = Some 29
   \<and> rindex ''Melody x Drum 60 0.0 0.5 100 Melody 64 0.5 0.5 100 Drum 36 Drum Bass'' DRUM
        (29 + length MELODY) = Some 59
   \<and> find_substring ''Melody x Drum 60 0.0 0.5 100 Melody 64 0.5 0.5 100 Drum 36 Drum Bass''
        MELODY DRUM = '' 64 0.5 0.5 100 Drum 36 ''
   \<and> rindex ''Drum Melody 64 0.5 0.5 100'' MELODY 0 = Some 5
   \<and> rindex ''Drum Melody 64 0.5 0.5 100'' DRUM (5 + length MELODY) = None
   \<and> find_substring ''Drum Melody 64 0.5 0.5 100'' MELODY DRUM = []"
proof -
  let ?t = "''Melody x Drum 60 0.0 0.5 100 Melody 64 0.5 0.5 100 Drum 36 Drum Bass''"
  let ?u = "''Drum Melody 64 0.5 0.5 100''"
  have r1: "rindex ?t MELODY 0 = Some 29" by code_simp
  then have s: "occurs_at ?t MELODY 29" "\<forall>j. occurs_at ?t MELODY j \<longrightarrow> j \<le> 29"
    by (simp_all add: rindex_Some_iff)
  have len: "29 + length MELODY \<le> 59" by (simp add: MELODY_def)
  have r2: "rindex ?t DRUM (29 + length MELODY) = Some 59" by code_simp
  then have e: "occurs_at ?t DRUM 59"
    "\<forall>j. 29 + length MELODY \<le> j \<and> occurs_at ?t DRUM j \<longrightarrow> j \<le> 59"
    by (simp_all add: rindex_Some_iff)
  have v: "take (59 - (29 + length MELODY)) (drop (29 + length MELODY) ?t) = '' 64 0.5 0.5 100 Drum 36 ''"
    by code_simp
  have r3: "rindex ?u MELODY 0 = Some 5" by code_simp
  then have s': "occurs_at ?u MELODY 5" "\<forall>j. occurs_at ?u MELODY j \<longrightarrow> j \<le> 5"
    by (simp_all add: rindex_Some_iff)
  have r4: "rindex ?u DRUM (5 + length MELODY) = None" by code_simp
  then have e': "\<forall>j. 5 + length MELODY \<le> j \<longrightarrow> \<not> occurs_at ?u DRUM j"
    by (simp add: rindex_None_iff)
  from find_substring_between [OF s, of DRUM] len e v
  have 1: "find_substring ?t MELODY DRUM = '' 64 0.5 0.5 100 Drum 36 ''" by metis
  from find_substring_between [OF s', of DRUM] e'
  have 2: "find_substring ?u MELODY DRUM = []" by blast
  from r1 r2 1 r3 r4 2 show ?thesis by blast
qed

section \<open>Splitting rows into fields\<close>

lemma split_at_no_sep:
  "\<forall>c \<in> set t. \<not> p c \<Longrightarrow> split_at p acc t = [rev acc @ t]"
  by (induction t arbitrary: acc) auto

lemma split_at_token:
  "\<forall>c \<in> set t. \<not> p c \<Longrightarrow> p sep \<Longrightarrow>
   split_at p acc (t @ sep # rest) = (rev acc @ t) # split_at p [] rest"
  by (induction t arbitrary: acc) auto

lemma split_at_count:
  "length (split_at p acc row) = Suc (length (filter p row))"
  by (induction row arbitrary: acc) auto

lemma re_split_token:
  "\<forall>c \<in> set t. \<not> is_sep c \<Longrightarrow> is_sep sep \<Longrightarrow> re_split (t @ sep # rest) = t # re_split rest"
  unfolding re_split_def by (simp add: split_at_token)

lemma re_split_last: "\<forall>c \<in> set t. \<not> is_sep c \<Longrightarrow> re_split t = [t]"
  unfolding re_split_def by (simp add: split_at_no_sep)

lemma split_lines_single: "\<forall>c \<in> set row. c \<noteq> CHR 0x0A \<Longrightarrow> split_lines row = [row]"
  unfolding split_lines_def by (simp add: split_at_no_sep)

lemma digit_nth: "n < 10 \<Longrightarrow> ''0123456789'' ! n \<in> set ''0123456789''"
  by (rule nth_mem) simp

lemma str_nat_digits: "set (str_nat n) \<subseteq> set ''0123456789'' \<and> str_nat n \<noteq> []"
proof (induction n rule: str_nat.induct)
  case (1 n)
  define ds where "ds = ''0123456789''"
  have len: "length ds = 10" by (simp add: ds_def)
  have eq: "str_nat n = (if n < 10 then [ds ! n] else str_nat (n div 10) @ [ds ! (n mod 10)])"
    unfolding ds_def by (rule str_nat.simps)
  have "set (str_nat n) \<subseteq> set ds \<and> str_nat n \<noteq> []"
  proof (cases "n < 10")
    case True
    then have "ds ! n \<in> set ds" by (simp add: len)
    with True eq show ?thesis by simp
  next
    case False
    have "ds ! (n mod 10) \<in> set ds" by (simp add: len)
    moreover from 1 [OF False] have "set (str_nat (n div 10)) \<subseteq> set ds"
      unfolding ds_def by (rule conjunct1)
    ultimately show ?thesis using False eq by simp
  qed
  then show ?case unfolding ds_def .
qed

lemma str_int_chars:
  "str_int i \<noteq> [] \<and> (\<forall>c \<in> set (str_int i). \<not> is_sep c \<and> c \<noteq> CHR 0x0A)"
proof -
  define ds where "ds = ''0123456789''"
  have ok: "\<forall>c \<in> insert CHR ''-'' (set ds). \<not> is_sep c \<and> c \<noteq> CHR 0x0A"
    by (simp add: is_sep_def ds_def)
  have nat: "set (str_nat k) \<subseteq> set ds \<and> str_nat k \<noteq> []" for k
    using str_nat_digits [of k] unfolding ds_def .
  have "set (str_int i) \<subseteq> insert CHR ''-'' (set ds)"
    using nat [of "nat i"] nat [of "nat (- i)"] by (auto simp: str_int_def)
  moreover have "str_int i \<noteq> []"
    using nat [of "nat i"] by (simp add: str_int_def)
  ultimately show ?thesis using ok by blast
qed

lemma is_sep_not_newline: "is_sep c \<Longrightarrow> c \<noteq> CHR 0x0A"
  by (auto simp: is_sep_def)

lemma parse_single_line:
  assumes "\<forall>c \<in> set line. c \<noteq> CHR 0x0A" "row_guard valid_midi_notes line"
  shows "parse_table_to_list line valid_midi_notes
           = Some (if 4 \<le> length (re_split line) then [re_split line] else [])"
proof -
  from assms(2) have "line \<noteq> []" by (simp add: row_guard_def)
  with assms split_lines_single [OF assms(1)] show ?thesis
    by (simp add: parse_table_to_list_def SCHEMA_def)
qed

text \<open>
  C7, as the code has it. A row is split at every single tab or space, so it has one field
  more than it has separators and consecutive separators give empty fields. The rows
  returned are exactly the split candidate lines that have at least 4 fields, in line
  order; a candidate line of fewer fields is dropped. A line \<open>P S D V\<close> with single
  separators, \<open>P\<close> the decimal string of a note of the valid range and tokens free of
  separators parses to the one row \<open>[P, S, D, V]\<close>; further tokens after a separator follow
  as extra fields; and the schema indices read \<open>P\<close>, \<open>S\<close>, \<open>D\<close>, \<open>V\<close> as pitch, start time,
  duration and velocity.
\<close>

theorem fields_split_at_each_separator:
  assumes "n \<in> set valid_midi_notes" "P = str_int n"
    and "\<forall>c \<in> set (S @ D @ V). \<not> is_sep c \<and> c \<noteq> CHR 0x0A"
    and "is_sep c1" "is_sep c2" "is_sep c3"
  shows "length (re_split row) = Suc (length (filter is_sep row))
    \<and> (data \<noteq> [] \<longrightarrow>
         parse_table_to_list data valid_midi_notes
           = Some (filter (\<lambda>r. 4 \<le> length r)
                     (map re_split (filter (row_guard valid_midi_notes) (split_lines data)))))
    \<and> ((\<forall>c \<in> set line. c \<noteq> CHR 0x0A) \<and> row_guard valid_midi_notes line \<longrightarrow>
         parse_table_to_list line valid_midi_notes
           = Some (if 4 \<le> length (re_split line) then [re_split line] else []))
    \<and> parse_table_to_list (P @ c1 # S @ c2 # D @ c3 # V) valid_midi_notes = Some [[P, S, D, V]]
    \<and> (is_sep c4 \<and> (\<forall>c \<in> set extra. c \<noteq> CHR 0x0A) \<longrightarrow>
         parse_table_to_list (P @ c1 # S @ c2 # D @ c3 # V @ c4 # extra) valid_midi_notes
           = Some [P # S # D # V # re_split extra])
    \<and> row_get (P # S # D # V # more_fields) (index_of SCHEMA PITCH) = Inr P
    \<and> row_get (P # S # D # V # more_fields) (index_of SCHEMA START_TIME) = Inr S
    \<and> row_get (P # S # D # V # more_fields) (index_of SCHEMA DURATION) = Inr D
    \<and> row_get (P # S # D # V # more_fields) (index_of SCHEMA VELOCITY) = Inr V"
proof -
  from str_int_chars [of n] assms(2)
  have P: "P \<noteq> []" "\<forall>c \<in> set P. \<not> is_sep c" "\<forall>c \<in> set P. c \<noteq> CHR 0x0A" by auto
  from assms(3) have toks: "\<forall>c \<in> set S. \<not> is_sep c" "\<forall>c \<in> set D. \<not> is_sep c"
    "\<forall>c \<in> set V. \<not> is_sep c" by auto
  have guard: "row_guard valid_midi_notes (P @ rest)" for rest
    using assms(1,2) P(1) by (auto simp: row_guard_def list_ex_iff intro!: bexI [of _ n])
  let ?short = "P @ c1 # S @ c2 # D @ c3 # V"
  have "\<forall>c \<in> set ?short. c \<noteq> CHR 0x0A"
    using P(3) assms(3-6) is_sep_not_newline by auto
  then have lines: "split_lines ?short = [?short]" by (rule split_lines_single)
  have fields: "re_split ?short = [P, S, D, V]"
    using P(2) toks assms(4-6) by (simp add: re_split_token re_split_last)
  have short: "parse_table_to_list ?short valid_midi_notes = Some [[P, S, D, V]]"
    using P(1) guard [of "c1 # S @ c2 # D @ c3 # V"] lines fields
    by (simp add: parse_table_to_list_def SCHEMA_def)
  have long: "parse_table_to_list (P @ c1 # S @ c2 # D @ c3 # V @ c4 # extra) valid_midi_notes
           = Some [P # S # D # V # re_split extra]"
    if c4: "is_sep c4" and extra: "\<forall>c \<in> set extra. c \<noteq> CHR 0x0A"
  proof -
    let ?long = "P @ c1 # S @ c2 # D @ c3 # V @ c4 # extra"
    have "\<forall>c \<in> set ?long. c \<noteq> CHR 0x0A"
      using P(3) assms(3-6) c4 extra is_sep_not_newline by auto
    then have l: "split_lines ?long = [?long]" by (rule split_lines_single)
    have f: "re_split ?long = P # S # D # V # re_split extra"
      using P(2) toks assms(4-6) c4 by (simp add: re_split_token)
    show ?thesis
      using P(1) guard [of "c1 # S @ c2 # D @ c3 # V @ c4 # extra"] l f
      by (simp add: parse_table_to_list_def SCHEMA_def)
  qed
  have count: "length (re_split row) = Suc (length (filter is_sep row))"
    unfolding re_split_def by (rule split_at_count)
  have kept: "data \<noteq> [] \<longrightarrow>
         parse_table_to_list data valid_midi_notes
           = Some (filter (\<lambda>r. 4 \<le> length r)
                     (map re_split (filter (row_guard valid_midi_notes) (split_lines data))))"
  proof -
    have "length SCHEMA = 4" by (simp add: SCHEMA_def)
    then show ?thesis by (simp add: parse_table_to_list_def)
  qed
  have single: "(\<forall>c \<in> set line. c \<noteq> CHR 0x0A) \<and> row_guard valid_midi_notes line \<longrightarrow>
         parse_table_to_list line valid_midi_notes
           = Some (if 4 \<le> length (re_split line) then [re_split line] else [])"
    using parse_single_line by blast
  have pos: "row_get (P # S # D # V # more_fields) (index_of SCHEMA PITCH) = Inr P
    \<and> row_get (P # S # D # V # more_fields) (index_of SCHEMA START_TIME) = Inr S
    \<and> row_get (P # S # D # V # more_fields) (index_of SCHEMA DURATION) = Inr D
    \<and> row_get (P # S # D # V # more_fields) (index_of SCHEMA VELOCITY) = Inr V"
    by (simp add: row_get_def)
  from count kept single short long pos show ?thesis by blast
qed

theorem fields_split_at_each_separator_witness:
  "60 \<in> set VALID_MIDI_NOTES \<and> ''60'' = str_int 60
   \<and> is_sep CHR '' '' \<and> is_sep (CHR 0x09)
   \<and> length (re_split ''60  0.0'') = Suc (length (filter is_sep ''60  0.0''))
   \<and> parse_table_to_list ''60 0.0 0.5 100'' VALID_MIDI_NOTES
       = Some [[''60'', ''0.0'', ''0.5'', ''100'']]
   \<and> parse_table_to_list (''60 0.0 0.5 100'' @ CHR 0x09 # ''x y'') VALID_MIDI_NOTES
       = Some [[''60'', ''0.0'', ''0.5'', ''100'', ''x'', ''y'']]
   \<and> row_guard VALID_MIDI_NOTES ''60 0.5 100''
   \<and> re_split ''60 0.5 100'' = [''60'', ''0.5'', ''100'']
   \<and> parse_table_to_list ''60 0.5 100'' VALID_MIDI_NOTES = Some []
   \<and> parse_table_to_list (''60 0.5 100'' @ NL @ ''64 0.5 0.5 100'') VALID_MIDI_NOTES
       = Some [[''64'', ''0.5'', ''0.5'', ''100'']]"
proof -
  have n: "60 \<in> set VALID_MIDI_NOTES" by code_simp
  have p: "''60'' = str_int 60" by code_simp
  have toks: "\<forall>c \<in> set (''0.0'' @ ''0.5'' @ ''100''). \<not> is_sep c \<and> c \<noteq> CHR 0x0A"
    by (simp add: is_sep_def)
  have sp: "is_sep CHR '' ''" and tab: "is_sep (CHR 0x09)" by (simp_all add: is_sep_def)
  have extra: "\<forall>c \<in> set ''x y''. c \<noteq> CHR 0x0A" by simp
  have tail: "re_split ''x y'' = [''x'', ''y'']" by code_simp
  have g: "row_guard VALID_MIDI_NOTES ''60 0.5 100''" by code_simp
  have three: "re_split ''60 0.5 100'' = [''60'', ''0.5'', ''100'']" by code_simp
  have nonl: "\<forall>c \<in> set ''60 0.5 100''. c \<noteq> CHR 0x0A" by simp
  have two: "filter (\<lambda>r. 4 \<le> length r)
               (map re_split (filter (row_guard VALID_MIDI_NOTES)
                  (split_lines (''60 0.5 100'' @ NL @ ''64 0.5 0.5 100''))))
             = [[''64'', ''0.5'', ''0.5'', ''100'']]"
    by code_simp
  note inst = fields_split_at_each_separator [OF n p toks sp sp sp,
      of "''60  0.0''" "''60 0.5 100'' @ NL @ ''64 0.5 0.5 100''" "''60 0.5 100''" "CHR 0x09" "''x y''"]
  from inst tab extra tail
  have "length (re_split ''60  0.0'') = Suc (length (filter is_sep ''60  0.0''))"
    and "parse_table_to_list ''60 0.0 0.5 100'' VALID_MIDI_NOTES
       = Some [[''60'', ''0.0'', ''0.5'', ''100'']]"
    and "parse_table_to_list (''60 0.0 0.5 100'' @ CHR 0x09 # ''x y'') VALID_MIDI_NOTES
       = Some [[''60'', ''0.0'', ''0.5'', ''100'', ''x'', ''y'']]"
    by simp_all
  moreover from inst g nonl three
  have "parse_table_to_list ''60 0.5 100'' VALID_MIDI_NOTES = Some []"
    by simp
  moreover from inst two
  have "parse_table_to_list (''60 0.5 100'' @ NL @ ''64 0.5 0.5 100'') VALID_MIDI_NOTES
       = Some [[''64'', ''0.5'', ''0.5'', ''100'']]"
    by (simp add: NL_def)
  ultimately show ?thesis using n p sp tab g three by blast
qed

text \<open>
  C7 as stated fails: two consecutive spaces give an empty field, which is read as the
  start time; and a row of three tokens is kept when a doubled separator brings it to four
  fields.
\<close>

theorem consecutive_separators_give_empty_field:
  "parse_table_to_list ''60  0.0 0.5 100'' VALID_MIDI_NOTES
     = Some [[''60'', [], ''0.0'', ''0.5'', ''100'']]
   \<and> row_get [''60'', [], ''0.0'', ''0.5'', ''100''] (index_of SCHEMA START_TIME) = Inr []
   \<and> parse_table_to_list ''60  0.5 100'' VALID_MIDI_NOTES = Some [[''60'', [], ''0.5'', ''100'']]"
  by code_simp

section \<open>The pitch guard\<close>

lemma takeWhile_prefix: "prefix (takeWhile P xs) xs"
  by (metis prefixI takeWhile_dropWhile_id)

lemma spec_candidate_kept: "spec_candidate_row notes row \<Longrightarrow> row_guard notes row"
  unfolding spec_candidate_row_def row_guard_def spec_leading_token_def list_ex_iff
  using takeWhile_prefix by metis

text \<open>
  C2. The guard tests whether the line starts with the decimal string of a valid note. The
  line \<open>300 0.0 0.5 100\<close> has the leading token \<open>300\<close>, which is no note of the range 30 to
  90, and is kept as a row, with pitch 300.
\<close>

theorem prefix_guard_keeps_out_of_range_pitch:
  "spec_leading_token ''300 0.0 0.5 100'' = ''300''
   \<and> \<not> spec_candidate_row VALID_MIDI_NOTES ''300 0.0 0.5 100''
   \<and> parse_table_to_list ''300 0.0 0.5 100'' VALID_MIDI_NOTES
       = Some [[''300'', ''0.0'', ''0.5'', ''100'']]
   \<and> note_of binary64_numerics [''300'', ''0.0'', ''0.5'', ''100''] = Some (300, 1 / 2, 100)"
  by code_simp

section \<open>The pattern duration\<close>

text \<open>
  The values of the sample tokens, sums and roundings in the concrete instance, evaluated
  once.
\<close>

lemma sample_tokens:
  "py_float binary64_numerics ''0.0'' = Some 0"
  "py_float binary64_numerics ''0.5'' = Some (1 / 2)"
  "py_float binary64_numerics ''0.00005'' = Some (7378697629483821 / 147573952589676412928)"
  by code_simp+

lemma sample_sums:
  "foldl (py_add binary64_numerics) 0 [1 / 2, 1 / 2, 7378697629483821 / 147573952589676412928]
     = 4503824807351865 / 4503599627370496"
  "foldl (py_add binary64_numerics) 0 [1 / 2, 7378697629483821 / 147573952589676412928, 1 / 2]
     = 562978100918983 / 562949953421312"
  "foldl (py_add binary64_numerics) 0 [1 / 2, 1 / 2] = 1"
  "foldl (py_add binary64_numerics) (1 / 2) [1 / 2, 1 / 2] = 3 / 2"
  by code_simp+

lemma sample_roundings:
  "py_round4 binary64_numerics (4503824807351865 / 4503599627370496) = binary64 (10001 / 10000)"
  "py_round4 binary64_numerics (562978100918983 / 562949953421312) = 1"
  "py_round4 binary64_numerics 1 = 1"
  "py_round4 binary64_numerics (3 / 2) = 3 / 2"
  by code_simp+

lemma binary64_10001: "binary64 (10001 / 10000) \<noteq> 1"
  by code_simp

lemma sample_rows:
  "first_start binary64_numerics ([p, ''0.0'', du, v] # rest) = Some 0"
  "first_start binary64_numerics ([p, ''0.5'', du, v] # rest) = Some (1 / 2)"
  "float_field binary64_numerics [p, s, ''0.5'', v] DURATION = Inr (1 / 2)"
  "float_field binary64_numerics [p, s, ''0.00005'', v] DURATION
     = Inr (7378697629483821 / 147573952589676412928)"
  by (simp_all add: first_start_def float_field_def row_get_def sample_tokens)

text \<open>
  C3 as stated fails: float addition is rounded at every step, so the order of the rows
  after the first matters. With the durations 0.5, 0.5, 0.00005 the result is 1.0001; with
  the last two rows exchanged it is 1.0.
\<close>

theorem later_rows_order_changes_duration:
  "calculate_pattern_duration binary64_numerics
     [[''60'', ''0.0'', ''0.5'', ''100''], [''62'', ''0.0'', ''0.5'', ''100''],
      [''64'', ''0.0'', ''0.00005'', ''100'']] = Inr (binary64 (10001 / 10000))
   \<and> calculate_pattern_duration binary64_numerics
     [[''60'', ''0.0'', ''0.5'', ''100''], [''64'', ''0.0'', ''0.00005'', ''100''],
      [''62'', ''0.0'', ''0.5'', ''100'']] = Inr 1
   \<and> binary64 (10001 / 10000) \<noteq> 1"
proof -
  let ?x = "7378697629483821 / 147573952589676412928 :: rat"
  let ?a = "[[''60'', ''0.0'', ''0.5'', ''100''], [''62'', ''0.0'', ''0.5'', ''100''],
      [''64'', ''0.0'', ''0.00005'', ''100'']]"
  let ?b = "[[''60'', ''0.0'', ''0.5'', ''100''], [''64'', ''0.0'', ''0.00005'', ''100''],
      [''62'', ''0.0'', ''0.5'', ''100'']]"
  have sa: "first_start binary64_numerics ?a = Some 0"
    and sb: "first_start binary64_numerics ?b = Some 0"
    by (rule sample_rows)+
  have da: "map (\<lambda>row. float_field binary64_numerics row DURATION) ?a = map Inr [1 / 2, 1 / 2, ?x]"
    and db: "map (\<lambda>row. float_field binary64_numerics row DURATION) ?b = map Inr [1 / 2, ?x, 1 / 2]"
    by (simp_all only: list.map sample_rows)
  from calculate_pattern_duration_value [OF sa da] calculate_pattern_duration_value [OF sb db]
    binary64_10001
  show ?thesis
    by (simp only: spec_pattern_duration_def sample_sums sample_roundings simp_thms)
qed

text \<open>
  C3, as the code has it. For a non-empty track whose first start time and durations
  convert, \<open>calculate_pattern_duration\<close> returns the first row's start time with every row's
  duration added to it in row order, each addition a float addition, rounded to 4 decimal
  digits. A permutation that changes which row is first can change the result: the rows
  \<open>60 0.0 0.5 100\<close> and \<open>64 0.5 0.5 100\<close> give 1.0 in this order and 1.5 in the other.
\<close>

theorem pattern_duration_left_sum:
  assumes "first_start N rows = Some s0"
    and "map (\<lambda>row. float_field N row DURATION) rows = map Inr ds"
  shows "calculate_pattern_duration N rows = Inr (spec_pattern_duration N s0 ds)
    \<and> spec_pattern_duration N s0 ds = py_round4 N (foldl (py_add N) s0 ds)
    \<and> calculate_pattern_duration binary64_numerics
         [[''60'', ''0.0'', ''0.5'', ''100''], [''64'', ''0.5'', ''0.5'', ''100'']]
       \<noteq> calculate_pattern_duration binary64_numerics
         [[''64'', ''0.5'', ''0.5'', ''100''], [''60'', ''0.0'', ''0.5'', ''100'']]"
proof -
  let ?a = "[[''60'', ''0.0'', ''0.5'', ''100''], [''64'', ''0.5'', ''0.5'', ''100'']]"
  let ?b = "[[''64'', ''0.5'', ''0.5'', ''100''], [''60'', ''0.0'', ''0.5'', ''100'']]"
  have sa: "first_start binary64_numerics ?a = Some 0"
    and sb: "first_start binary64_numerics ?b = Some (1 / 2)"
    by (rule sample_rows)+
  have da: "map (\<lambda>row. float_field binary64_numerics row DURATION) ?a = map Inr [1 / 2, 1 / 2]"
    and db: "map (\<lambda>row. float_field binary64_numerics row DURATION) ?b = map Inr [1 / 2, 1 / 2]"
    by (simp_all only: list.map sample_rows)
  have a: "calculate_pattern_duration binary64_numerics ?a = Inr 1"
    using calculate_pattern_duration_value [OF sa da]
    by (simp only: spec_pattern_duration_def sample_sums sample_roundings)
  have b: "calculate_pattern_duration binary64_numerics ?b = Inr (3 / 2)"
    using calculate_pattern_duration_value [OF sb db]
    by (simp only: spec_pattern_duration_def sample_sums sample_roundings)
  have "calculate_pattern_duration binary64_numerics ?a
          \<noteq> calculate_pattern_duration binary64_numerics ?b"
    by (simp add: a b)
  with calculate_pattern_duration_value [OF assms] show ?thesis
    by (simp add: spec_pattern_duration_def)
qed

theorem pattern_duration_left_sum_witness:
  "first_start binary64_numerics
     [[''60'', ''0.0'', ''0.5'', ''100''], [''64'', ''0.5'', ''0.5'', ''100'']] = Some 0
   \<and> map (\<lambda>row. float_field binary64_numerics row DURATION)
       [[''60'', ''0.0'', ''0.5'', ''100''], [''64'', ''0.5'', ''0.5'', ''100'']] = map Inr [1 / 2, 1 / 2]
   \<and> calculate_pattern_duration binary64_numerics
       [[''60'', ''0.0'', ''0.5'', ''100''], [''64'', ''0.5'', ''0.5'', ''100'']] = Inr 1"
proof -
  let ?rows = "[[''60'', ''0.0'', ''0.5'', ''100''], [''64'', ''0.5'', ''0.5'', ''100'']]"
  have s: "first_start binary64_numerics ?rows = Some 0" by (rule sample_rows)
  have d: "map (\<lambda>row. float_field binary64_numerics row DURATION) ?rows = map Inr [1 / 2, 1 / 2]"
    by (simp only: list.map sample_rows)
  have v: "spec_pattern_duration binary64_numerics 0 [1 / 2, 1 / 2] = 1"
    by (simp only: spec_pattern_duration_def sample_sums sample_roundings)
  from pattern_duration_left_sum [OF s d] s d v show ?thesis by simp
qed

end
